theory Spec2Isabelle
  imports Complex_Main
begin

section \<open>The shared base class of the four games\<close>

text \<open>
  \<^verbatim>\<open>BaseGame\<close> holds the canvas (its size is what the games read), the score and the
  run flags. The controller is an external
  object; the one effect on it that matters here is the call
  \<^verbatim>\<open>controller.gameOver(score)\<close>, which is recorded in \<open>gameOverCalls\<close> (one entry per
  call, holding the score passed, oldest first). Sounds and the score display are
  output only and are left out.
\<close>

record base_game =
  canvasWidth :: real
  canvasHeight :: real
  score :: int
  isRunning :: bool
  isPaused :: bool
  animationId :: "nat option"
  gameOverCalls :: "int list"

definition addScore :: "int \<Rightarrow> 'a base_game_scheme \<Rightarrow> 'a base_game_scheme" where
  "addScore points g = g\<lparr>score := score g + points\<rparr>"

definition stop :: "'a base_game_scheme \<Rightarrow> 'a base_game_scheme" where
  "stop g = g\<lparr>isRunning := False, animationId := None\<rparr>"

definition triggerGameOver :: "'a base_game_scheme \<Rightarrow> 'a base_game_scheme" where
  "triggerGameOver g =
     (let g1 = stop g in g1\<lparr>gameOverCalls := gameOverCalls g1 @ [score g1]\<rparr>)"


section \<open>Tetris\<close>

subsection \<open>Pieces and board\<close>

datatype piece = Piece_I | Piece_O | Piece_T | Piece_S | Piece_Z | Piece_J | Piece_L

text \<open>The four rotation states of every piece, as the constructor's table has them.\<close>

fun shape :: "piece \<Rightarrow> int list list list" where
  "shape Piece_I =
     [[[0,0,0,0], [1,1,1,1], [0,0,0,0], [0,0,0,0]],
      [[0,0,1,0], [0,0,1,0], [0,0,1,0], [0,0,1,0]],
      [[0,0,0,0], [0,0,0,0], [1,1,1,1], [0,0,0,0]],
      [[0,1,0,0], [0,1,0,0], [0,1,0,0], [0,1,0,0]]]"
| "shape Piece_O =
     [[[1,1], [1,1]],
      [[1,1], [1,1]],
      [[1,1], [1,1]],
      [[1,1], [1,1]]]"
| "shape Piece_T =
     [[[0,1,0], [1,1,1], [0,0,0]],
      [[0,1,0], [0,1,1], [0,1,0]],
      [[0,0,0], [1,1,1], [0,1,0]],
      [[0,1,0], [1,1,0], [0,1,0]]]"
| "shape Piece_S =
     [[[0,1,1], [1,1,0], [0,0,0]],
      [[0,1,0], [0,1,1], [0,0,1]],
      [[0,0,0], [0,1,1], [1,1,0]],
      [[1,0,0], [1,1,0], [0,1,0]]]"
| "shape Piece_Z =
     [[[1,1,0], [0,1,1], [0,0,0]],
      [[0,0,1], [0,1,1], [0,1,0]],
      [[0,0,0], [1,1,0], [0,1,1]],
      [[0,1,0], [1,1,0], [1,0,0]]]"
| "shape Piece_J =
     [[[1,0,0], [1,1,1], [0,0,0]],
      [[0,1,1], [0,1,0], [0,1,0]],
      [[0,0,0], [1,1,1], [0,0,1]],
      [[0,1,0], [0,1,0], [1,1,0]]]"
| "shape Piece_L =
     [[[0,0,1], [1,1,1], [0,0,0]],
      [[0,1,0], [0,1,0], [0,1,1]],
      [[0,0,0], [1,1,1], [1,0,0]],
      [[1,1,0], [0,1,0], [0,1,0]]]"

fun color :: "piece \<Rightarrow> string" where
  "color Piece_I = ''#00ffff''"
| "color Piece_O = ''#ffff00''"
| "color Piece_T = ''#ff00ff''"
| "color Piece_S = ''#00ff41''"
| "color Piece_Z = ''#ff1493''"
| "color Piece_J = ''#0066ff''"
| "color Piece_L = ''#ff6600''"

text \<open>A board cell is the number 0 or a colour string.\<close>

datatype cell = Zero | Color string

type_synonym board = "cell list list"

definition cols :: int where "cols = 10"
definition rows :: int where "rows = 20"

record tetris = base_game +
  board :: board
  currentPiece :: piece
  currentX :: int
  currentY :: int
  currentRotation :: nat
  nextPiece :: piece
  dropTimer :: real
  dropInterval :: int
  lastTime :: real
  level :: int
  lines :: int
  softDropping :: bool

text \<open>
  The offsets \<open>(col, row)\<close> of the non-zero entries of a shape matrix, in the order the
  two nested loops of \<^verbatim>\<open>checkCollision\<close> and \<^verbatim>\<open>lockPiece\<close> visit them (rows outermost).
\<close>

definition rowCells :: "int \<Rightarrow> int list \<Rightarrow> (int \<times> int) list" where
  "rowCells row line =
     map (\<lambda>(col, v). (int col, row)) (filter (\<lambda>(col, v). v \<noteq> 0) (enumerate 0 line))"

definition shapeCells :: "int list list \<Rightarrow> (int \<times> int) list" where
  "shapeCells sh = concat (map (\<lambda>(row, line). rowCells (int row) line) (enumerate 0 sh))"

definition getPieceShape :: "tetris \<Rightarrow> nat \<Rightarrow> int list list" where
  "getPieceShape s rotation = shape (currentPiece s) ! rotation"

definition getPieceColor :: "tetris \<Rightarrow> string" where
  "getPieceColor s = color (currentPiece s)"

subsection \<open>Collision test\<close>

text \<open>
  One occupied cell of the piece at board position \<open>(newX, newY)\<close>: out of bounds to the
  left, right or bottom collides; a cell above the board (\<open>newY < 0\<close>) does not; a cell on
  the board collides when the board holds a colour there.
\<close>

definition cellBlocked :: "board \<Rightarrow> int \<Rightarrow> int \<Rightarrow> bool" where
  "cellBlocked b newX newY =
     (if newX < 0 \<or> newX \<ge> cols \<or> newY \<ge> rows then True
      else newY \<ge> 0 \<and> b ! nat newY ! nat newX \<noteq> Zero)"

definition checkCollision :: "tetris \<Rightarrow> int \<Rightarrow> int \<Rightarrow> nat \<Rightarrow> bool" where
  "checkCollision s x y rotation =
     list_ex (\<lambda>(col, row). cellBlocked (board s) (x + col) (y + row))
       (shapeCells (shape (currentPiece s) ! rotation))"

subsection \<open>Moves and rotation\<close>

definition moveLeft :: "tetris \<Rightarrow> tetris" where
  "moveLeft s =
     (if \<not> checkCollision s (currentX s - 1) (currentY s) (currentRotation s)
      then s\<lparr>currentX := currentX s - 1\<rparr> else s)"

definition moveRight :: "tetris \<Rightarrow> tetris" where
  "moveRight s =
     (if \<not> checkCollision s (currentX s + 1) (currentY s) (currentRotation s)
      then s\<lparr>currentX := currentX s + 1\<rparr> else s)"

text \<open>The wall-kick loop: the first offset that does not collide is taken.\<close>

fun tryKicks :: "tetris \<Rightarrow> nat \<Rightarrow> int list \<Rightarrow> tetris" where
  "tryKicks s newRotation [] = s"
| "tryKicks s newRotation (kick # ks) =
     (if \<not> checkCollision s (currentX s + kick) (currentY s) newRotation
      then s\<lparr>currentX := currentX s + kick, currentRotation := newRotation\<rparr>
      else tryKicks s newRotation ks)"

definition kicks :: "int list" where
  "kicks = [-1, 1, -2, 2]"

definition rotatePiece :: "tetris \<Rightarrow> tetris" where
  "rotatePiece s =
     (let newRotation = (currentRotation s + 1) mod 4 in
      if \<not> checkCollision s (currentX s) (currentY s) newRotation
      then s\<lparr>currentRotation := newRotation\<rparr>
      else tryKicks s newRotation kicks)"


subsection \<open>Faults\<close>

text \<open>
  What JavaScript does when the model's data cannot follow: \<open>TypeError\<close> is the exception
  of reading a property of \<^verbatim>\<open>undefined\<close> (a row index outside the board array),
  \<open>OutsideRow\<close> a write at a column index outside a row (JavaScript would grow the row or
  add a property silently), \<open>NotANumber\<close> a score that became \<^verbatim>\<open>NaN\<close>.
\<close>

datatype fault = TypeError | OutsideRow | NotANumber

subsection \<open>Locking a piece\<close>

text \<open>The assignment \<^verbatim>\<open>this.board[boardY][boardX] = color\<close>, unguarded.\<close>

definition setCell :: "board \<Rightarrow> int \<Rightarrow> int \<Rightarrow> string \<Rightarrow> fault + board" where
  "setCell b boardY boardX c =
     (if boardY < 0 \<or> boardY \<ge> int (length b) then Inl TypeError
      else if boardX < 0 \<or> boardX \<ge> int (length (b ! nat boardY)) then Inl OutsideRow
      else Inr (b[nat boardY := (b ! nat boardY)[nat boardX := Color c]]))"

text \<open>The two nested loops of \<^verbatim>\<open>lockPiece\<close> over the occupied cells of the shape.\<close>

fun lockCells :: "board \<Rightarrow> int \<Rightarrow> int \<Rightarrow> string \<Rightarrow> (int \<times> int) list \<Rightarrow> fault + board" where
  "lockCells b x y c [] = Inr b"
| "lockCells b x y c ((col, row) # cs) =
     (let boardY = y + row; boardX = x + col in
      if boardY \<ge> 0 \<and> boardY < rows \<and> boardX \<ge> 0 \<and> boardX < cols
      then (case setCell b boardY boardX c of
              Inl e \<Rightarrow> Inl e
            | Inr b' \<Rightarrow> lockCells b' x y c cs)
      else lockCells b x y c cs)"

definition lockWrite :: "tetris \<Rightarrow> fault + board" where
  "lockWrite s =
     lockCells (board s) (currentX s) (currentY s) (getPieceColor s)
       (shapeCells (getPieceShape s (currentRotation s)))"

subsection \<open>Clearing lines\<close>

text \<open>\<^verbatim>\<open>this.board[y].every(cell => cell !== 0)\<close>\<close>

definition isFull :: "cell list \<Rightarrow> bool" where
  "isFull line = list_all (\<lambda>c. c \<noteq> Zero) line"

definition emptyLine :: "cell list" where
  "emptyLine = replicate (nat cols) Zero"

lemma filter_remove_nth_less:
  assumes "i < length xs" and "P (xs ! i)"
  shows "length (filter P (take i xs @ drop (Suc i) xs)) < length (filter P xs)"
proof -
  have "xs = take i xs @ xs ! i # drop (Suc i) xs"
    using assms(1) by (rule id_take_nth_drop)
  then have "filter P xs = filter P (take i xs) @ filter P (xs ! i # drop (Suc i) xs)"
    by (metis filter_append)
  with assms(2) show ?thesis by simp
qed

lemma emptyLine_not_full: "\<not> isFull emptyLine"
  by (simp add: isFull_def emptyLine_def cols_def list_all_iff)

text \<open>
  The loop of \<^verbatim>\<open>clearLines\<close>, from the bottom row up: a full row is spliced out and an
  empty row is put on top, and the same index is looked at again.
\<close>

function clearLoop :: "int \<Rightarrow> board \<Rightarrow> nat \<Rightarrow> fault + (board \<times> nat)" where
  "clearLoop y b linesCleared =
     (if y < 0 then Inr (b, linesCleared)
      else if int (length b) \<le> y then Inl TypeError
      else if isFull (b ! nat y)
        then clearLoop y (emptyLine # (take (nat y) b @ drop (Suc (nat y)) b)) (linesCleared + 1)
      else clearLoop (y - 1) b linesCleared)"
  by pat_completeness auto
termination
proof (relation "measures [\<lambda>(y, b, n). length (filter isFull b), \<lambda>(y, b, n). nat (y + 1)]")
  show "wf (measures [\<lambda>(y, b, n). length (filter isFull b), \<lambda>(y, b, n). nat (y + 1)])"
    by simp
next
  fix y :: int and b :: board and linesCleared :: nat
  assume "\<not> y < 0" and "\<not> int (length b) \<le> y" and "isFull (b ! nat y)"
  then have "length (filter isFull (take (nat y) b @ drop (Suc (nat y)) b))
      < length (filter isFull b)"
    by (intro filter_remove_nth_less) auto
  then show "((y, emptyLine # take (nat y) b @ drop (Suc (nat y)) b, linesCleared + 1),
      y, b, linesCleared)
      \<in> measures [\<lambda>(y, b, n). length (filter isFull b), \<lambda>(y, b, n). nat (y + 1)]"
    by (simp add: emptyLine_not_full)
next
  fix y :: int and b :: board and linesCleared :: nat
  assume "\<not> y < 0"
  then show "((y - 1, b, linesCleared), y, b, linesCleared)
      \<in> measures [\<lambda>(y, b, n). length (filter isFull b), \<lambda>(y, b, n). nat (y + 1)]"
    by simp
qed

declare clearLoop.simps [simp del]

text \<open>\<^verbatim>\<open>[0, 100, 300, 500, 800][linesCleared]\<close>: \<^verbatim>\<open>undefined\<close> beyond the table.\<close>

definition linePoints :: "nat \<Rightarrow> int option" where
  "linePoints n = (if n < 5 then Some ([0, 100, 300, 500, 800] ! n) else None)"

definition clearLines :: "tetris \<Rightarrow> fault + tetris" where
  "clearLines s =
     (case clearLoop (rows - 1) (board s) 0 of
        Inl e \<Rightarrow> Inl e
      | Inr (b, linesCleared) \<Rightarrow>
          (let s1 = s\<lparr>board := b\<rparr> in
           if linesCleared > 0 then
             (let s2 = s1\<lparr>lines := lines s1 + int linesCleared\<rparr> in
              case linePoints linesCleared of
                None \<Rightarrow> Inl NotANumber
              | Some p \<Rightarrow>
                  (let points = p * level s2;
                       s3 = addScore points s2;
                       newLevel = lines s3 div 10 + 1
                   in if newLevel > level s3
                      then Inr (s3\<lparr>level := newLevel,
                                   dropInterval := max 100 (1000 - (newLevel - 1) * 100)\<rparr>)
                      else Inr s3))
           else Inr s1))"


subsection \<open>Spawning and the whole of lockPiece\<close>

definition pieceTypes :: "piece list" where
  "pieceTypes = [Piece_I, Piece_O, Piece_T, Piece_S, Piece_Z, Piece_J, Piece_L]"

text \<open>
  \<^verbatim>\<open>Math.random()\<close> is an input of the model: every function that draws a random number
  takes the number drawn, a real in \<open>[0, 1)\<close>, as an argument.
\<close>

definition randomPiece :: "real \<Rightarrow> piece" where
  "randomPiece rnd = pieceTypes ! nat \<lfloor>rnd * real (length pieceTypes)\<rfloor>"

definition spawnPiece :: "real \<Rightarrow> tetris \<Rightarrow> tetris" where
  "spawnPiece rnd s =
     (let s1 = s\<lparr>currentPiece := nextPiece s, nextPiece := randomPiece rnd,
                  currentRotation := 0\<rparr>;
          sh = getPieceShape s1 (currentRotation s1);
          s2 = s1\<lparr>currentX := (cols - int (length (sh ! 0))) div 2, currentY := 0\<rparr>
      in if checkCollision s2 (currentX s2) (currentY s2) (currentRotation s2)
         then triggerGameOver s2 else s2)"

definition lockPiece :: "real \<Rightarrow> tetris \<Rightarrow> fault + tetris" where
  "lockPiece rnd s =
     (case lockWrite s of
        Inl e \<Rightarrow> Inl e
      | Inr b \<Rightarrow>
          (case clearLines (s\<lparr>board := b\<rparr>) of
             Inl e \<Rightarrow> Inl e
           | Inr s1 \<Rightarrow> Inr (spawnPiece rnd s1)))"

text \<open>The board as \<^verbatim>\<open>init\<close> builds it and every operation keeps it: 20 rows of 10 cells.\<close>

definition wfBoard :: "board \<Rightarrow> bool" where
  "wfBoard b = (int (length b) = rows \<and> list_all (\<lambda>line. int (length line) = cols) b)"


section \<open>Snake\<close>

text \<open>
  A grid cell or a direction \<^verbatim>\<open>{x, y}\<close> is a pair \<open>(x, y)\<close>. The clock
  (\<^verbatim>\<open>performance.now()\<close>) and the random numbers drawn are inputs: \<open>rnd k\<close> is the
  \<open>k\<close>-th number that \<^verbatim>\<open>Math.random()\<close> returns during the call.
\<close>

record snake_game = base_game +
  gridSize :: int
  tileCount :: "int \<times> int"
  snake :: "(int \<times> int) list"
  direction :: "int \<times> int"
  nextDirection :: "int \<times> int"
  food :: "int \<times> int"
  lastMoveTime :: real
  moveInterval :: real
  growPending :: int

text \<open>\<^verbatim>\<open>this.snake.some(segment => segment.x === p.x && segment.y === p.y)\<close>\<close>

definition onSnake :: "(int \<times> int) list \<Rightarrow> int \<times> int \<Rightarrow> bool" where
  "onSnake segs p = list_ex (\<lambda>segment. fst segment = fst p \<and> snd segment = snd p) segs"

text \<open>The cell drawn in attempt number \<open>attempts\<close> of \<^verbatim>\<open>spawnFood\<close> (two draws each).\<close>

definition drawCell :: "(nat \<Rightarrow> real) \<Rightarrow> int \<times> int \<Rightarrow> nat \<Rightarrow> int \<times> int" where
  "drawCell rnd tc attempts =
     (\<lfloor>rnd (2 * attempts) * of_int (fst tc)\<rfloor>, \<lfloor>rnd (2 * attempts + 1) * of_int (snd tc)\<rfloor>)"

function spawnFoodLoop :: "(nat \<Rightarrow> real) \<Rightarrow> snake_game \<Rightarrow> bool \<Rightarrow> nat \<Rightarrow> snake_game" where
  "spawnFoodLoop rnd s validPosition attempts =
     (if \<not> validPosition \<and> attempts < 100
      then (let s1 = s\<lparr>food := drawCell rnd (tileCount s) attempts\<rparr>
            in spawnFoodLoop rnd s1 (\<not> onSnake (snake s1) (food s1)) (attempts + 1))
      else s)"
  by pat_completeness auto
termination
  by (relation "measure (\<lambda>(rnd, s, validPosition, attempts). 100 - attempts)") auto

declare spawnFoodLoop.simps [simp del]

definition spawnFood :: "(nat \<Rightarrow> real) \<Rightarrow> snake_game \<Rightarrow> snake_game" where
  "spawnFood rnd s = spawnFoodLoop rnd s False 0"

definition snakeHandleKeyDown :: "string \<Rightarrow> snake_game \<Rightarrow> snake_game" where
  "snakeHandleKeyDown code s =
     (if code = ''ArrowUp''
        then (if snd (direction s) \<noteq> 1 then s\<lparr>nextDirection := (0, -1)\<rparr> else s)
      else if code = ''ArrowDown''
        then (if snd (direction s) \<noteq> -1 then s\<lparr>nextDirection := (0, 1)\<rparr> else s)
      else if code = ''ArrowLeft''
        then (if fst (direction s) \<noteq> 1 then s\<lparr>nextDirection := (-1, 0)\<rparr> else s)
      else if code = ''ArrowRight''
        then (if fst (direction s) \<noteq> -1 then s\<lparr>nextDirection := (1, 0)\<rparr> else s)
      else s)"

text \<open>
  The blocks of \<^verbatim>\<open>update\<close>, in the order they run: the bookkeeping at the start of a
  step, the food branch, and the tail branch.
\<close>

definition stepStart :: "real \<Rightarrow> snake_game \<Rightarrow> snake_game" where
  "stepStart now s = s\<lparr>lastMoveTime := now, direction := nextDirection s\<rparr>"

definition eatFood :: "(nat \<Rightarrow> real) \<Rightarrow> snake_game \<Rightarrow> snake_game" where
  "eatFood rnd s =
     (let s1 = addScore 10 s;
          s2 = s1\<lparr>growPending := growPending s1 + 1\<rparr>;
          s3 = spawnFood rnd s2
      in s3\<lparr>moveInterval := max 50 (moveInterval s3 - 2)\<rparr>)"

definition removeTail :: "snake_game \<Rightarrow> snake_game" where
  "removeTail s =
     (if growPending s > 0 then s\<lparr>growPending := growPending s - 1\<rparr>
      else s\<lparr>snake := butlast (snake s)\<rparr>)"

text \<open>
  One call of \<^verbatim>\<open>update\<close>. Reading \<^verbatim>\<open>this.snake[0].x\<close> of an empty snake throws; the
  snake is never empty after \<^verbatim>\<open>init\<close>, and the model keeps the case apart.
\<close>

definition snakeUpdate :: "real \<Rightarrow> (nat \<Rightarrow> real) \<Rightarrow> snake_game \<Rightarrow> fault + snake_game" where
  "snakeUpdate now rnd s =
     (if now - lastMoveTime s < moveInterval s then Inr s
      else
        (let s1 = stepStart now s in
         case snake s1 of
           [] \<Rightarrow> Inl TypeError
         | head # _ \<Rightarrow>
             (let newHead = (fst head + fst (direction s1), snd head + snd (direction s1)) in
              if fst newHead < 0 \<or> fst newHead \<ge> fst (tileCount s1) \<or>
                 snd newHead < 0 \<or> snd newHead \<ge> snd (tileCount s1)
                then Inr (triggerGameOver s1)
              else if onSnake (snake s1) newHead
                then Inr (triggerGameOver s1)
              else
                (let s2 = s1\<lparr>snake := newHead # snake s1\<rparr>
                 in if fst newHead = fst (food s2) \<and> snd newHead = snd (food s2)
                    then Inr (removeTail (eatFood rnd s2))
                    else Inr (removeTail s2)))))"


text \<open>The new head cell that a step from \<open>s\<close> computes.\<close>

definition stepHead :: "snake_game \<Rightarrow> int \<times> int" where
  "stepHead s =
     (fst (hd (snake s)) + fst (nextDirection s), snd (hd (snake s)) + snd (nextDirection s))"

definition inGrid :: "int \<times> int \<Rightarrow> int \<times> int \<Rightarrow> bool" where
  "inGrid tc p = (0 \<le> fst p \<and> fst p < fst tc \<and> 0 \<le> snd p \<and> snd p < snd tc)"


section \<open>Breakout\<close>

text \<open>
  Positions and velocities are JavaScript numbers; the model takes them as real numbers,
  with \<open>sin\<close>, \<open>cos\<close> and \<open>sqrt\<close> exact. A brick's colour only matters for drawing
  and is left out.
\<close>

record paddle =
  paddleWidth :: real
  paddleHeight :: real
  paddleX :: real
  paddleY :: real
  paddleSpeed :: real

record ball =
  ballX :: real
  ballY :: real
  ballRadius :: real
  ballDx :: real
  ballDy :: real
  ballSpeed :: real

record brick =
  brickX :: real
  brickY :: real
  status :: int
  points :: int

record breakout = base_game +
  paddle :: paddle
  ball :: ball
  brickRowCount :: nat
  brickColumnCount :: nat
  brickWidth :: real
  brickHeight :: real
  brickPadding :: real
  brickOffsetTop :: real
  brickOffsetLeft :: real
  bricks :: "brick list list"
  lives :: int
  ballLaunched :: bool
  keysLeft :: bool
  keysRight :: bool

definition resetBall :: "breakout \<Rightarrow> breakout" where
  "resetBall s =
     s\<lparr>ball := (ball s)\<lparr>ballX := paddleX (paddle s) + paddleWidth (paddle s) / 2,
                          ballY := paddleY (paddle s) - ballRadius (ball s) - 2,
                          ballDx := 0, ballDy := 0\<rparr>,
       ballLaunched := False\<rparr>"

text \<open>\<open>bricks[c][r]\<close> for every column \<open>c\<close> and row \<open>r\<close>.\<close>

definition createBricks :: "breakout \<Rightarrow> breakout" where
  "createBricks s =
     s\<lparr>bricks :=
         map (\<lambda>c. map (\<lambda>r.
                \<lparr>brickX = real c * (brickWidth s + brickPadding s) + brickOffsetLeft s,
                 brickY = real r * (brickHeight s + brickPadding s) + brickOffsetTop s,
                 status = 1,
                 points = (int (brickRowCount s) - int r) * 10\<rparr>)
              [0..<brickRowCount s])
           [0..<brickColumnCount s]\<rparr>"

definition checkPaddleCollision :: "breakout \<Rightarrow> breakout" where
  "checkPaddleCollision s =
     (let b = ball s; p = paddle s in
      if ballDy b > 0 \<and>
         ballY b + ballRadius b \<ge> paddleY p \<and>
         ballY b - ballRadius b \<le> paddleY p + paddleHeight p \<and>
         ballX b \<ge> paddleX p \<and>
         ballX b \<le> paddleX p + paddleWidth p
      then (let hitPos = (ballX b - paddleX p) / paddleWidth p;
                angle = (hitPos - 0.5) * pi * 0.7;
                speed = sqrt (ballDx b * ballDx b + ballDy b * ballDy b)
            in s\<lparr>ball := b\<lparr>ballDx := sin angle * speed,
                             ballDy := - cos angle * speed,
                             ballY := paddleY p - ballRadius b\<rparr>\<rparr>)
      else s)"

text \<open>The overlap test of the ball's bounding box against one brick.\<close>

definition brickHit :: "breakout \<Rightarrow> brick \<Rightarrow> bool" where
  "brickHit s brick =
     (let b = ball s in
      ballX b + ballRadius b > brickX brick \<and>
      ballX b - ballRadius b < brickX brick + brickWidth s \<and>
      ballY b + ballRadius b > brickY brick \<and>
      ballY b - ballRadius b < brickY brick + brickHeight s)"

text \<open>What the two loops of \<^verbatim>\<open>checkBrickCollision\<close> skip over until they stop.\<close>

definition hits :: "breakout \<Rightarrow> nat \<Rightarrow> nat \<Rightarrow> bool" where
  "hits s c r = (status (bricks s ! c ! r) = 1 \<and> brickHit s (bricks s ! c ! r))"

text \<open>The index pairs \<open>(c, r)\<close> in the order of the two loops, columns outermost.\<close>

definition brickIndices :: "breakout \<Rightarrow> (nat \<times> nat) list" where
  "brickIndices s = List.product [0..<brickColumnCount s] [0..<brickRowCount s]"

definition minOverlapX :: "breakout \<Rightarrow> brick \<Rightarrow> real" where
  "minOverlapX s brick =
     (let b = ball s;
          overlapLeft = ballX b + ballRadius b - brickX brick;
          overlapRight = brickX brick + brickWidth s - (ballX b - ballRadius b)
      in min overlapLeft overlapRight)"

definition minOverlapY :: "breakout \<Rightarrow> brick \<Rightarrow> real" where
  "minOverlapY s brick =
     (let b = ball s;
          overlapTop = ballY b + ballRadius b - brickY brick;
          overlapBottom = brickY brick + brickHeight s - (ballY b - ballRadius b)
      in min overlapTop overlapBottom)"

text \<open>The body run for the brick that is hit: bounce, destroy, score.\<close>

definition hitBrick :: "breakout \<Rightarrow> nat \<Rightarrow> nat \<Rightarrow> breakout" where
  "hitBrick s c r =
     (let brick = bricks s ! c ! r;
          b = ball s;
          b1 = (if minOverlapX s brick < minOverlapY s brick
                then b\<lparr>ballDx := - ballDx b\<rparr>
                else b\<lparr>ballDy := - ballDy b\<rparr>);
          s1 = s\<lparr>ball := b1,
                 bricks := (bricks s)[c := (bricks s ! c)[r := brick\<lparr>status := 0\<rparr>]]\<rparr>
      in addScore (points brick) s1)"

definition checkBrickCollision :: "breakout \<Rightarrow> breakout" where
  "checkBrickCollision s =
     (case find (\<lambda>(c, r). hits s c r) (brickIndices s) of
        None \<Rightarrow> s
      | Some (c, r) \<Rightarrow> hitBrick s c r)"

definition checkWin :: "breakout \<Rightarrow> bool" where
  "checkWin s = list_all (\<lambda>(c, r). status (bricks s ! c ! r) \<noteq> 1) (brickIndices s)"

text \<open>The blocks of \<^verbatim>\<open>update\<close>, in the order they run.\<close>

definition movePaddle :: "breakout \<Rightarrow> breakout" where
  "movePaddle s =
     (let p0 = paddle s;
          p1 = (if keysLeft s \<and> paddleX p0 > 0
                then p0\<lparr>paddleX := paddleX p0 - paddleSpeed p0\<rparr> else p0);
          p2 = (if keysRight s \<and> paddleX p1 < canvasWidth s - paddleWidth p1
                then p1\<lparr>paddleX := paddleX p1 + paddleSpeed p1\<rparr> else p1)
      in s\<lparr>paddle := p2\<lparr>paddleX := max 0 (min (canvasWidth s - paddleWidth p2) (paddleX p2))\<rparr>\<rparr>)"

definition moveBall :: "breakout \<Rightarrow> breakout" where
  "moveBall s =
     (let b0 = ball s;
          b1 = b0\<lparr>ballX := ballX b0 + ballDx b0, ballY := ballY b0 + ballDy b0\<rparr>;
          b2 = (if ballX b1 - ballRadius b1 < 0 \<or> ballX b1 + ballRadius b1 > canvasWidth s
                then b1\<lparr>ballDx := - ballDx b1,
                        ballX := max (ballRadius b1)
                                   (min (canvasWidth s - ballRadius b1) (ballX b1))\<rparr>
                else b1);
          b3 = (if ballY b2 - ballRadius b2 < 0
                then b2\<lparr>ballDy := - ballDy b2, ballY := ballRadius b2\<rparr>
                else b2)
      in s\<lparr>ball := b3\<rparr>)"

text \<open>The body of \<^verbatim>\<open>if (this.checkWin())\<close>: the next level.\<close>

definition levelClear :: "breakout \<Rightarrow> breakout" where
  "levelClear s =
     (let s1 = s\<lparr>ball := (ball s)\<lparr>ballSpeed := ballSpeed (ball s) + 1\<rparr>\<rparr>
      in addScore 100 (resetBall (createBricks s1)))"

definition collideAndWin :: "breakout \<Rightarrow> breakout" where
  "collideAndWin s =
     (let s1 = checkPaddleCollision s;
          s2 = checkBrickCollision s1
      in if checkWin s2 then levelClear s2 else s2)"

definition breakoutUpdate :: "breakout \<Rightarrow> breakout" where
  "breakoutUpdate s =
     (let s1 = movePaddle s in
      if \<not> ballLaunched s1
      then s1\<lparr>ball := (ball s1)\<lparr>ballX := paddleX (paddle s1) + paddleWidth (paddle s1) / 2,
                                ballY := paddleY (paddle s1) - ballRadius (ball s1) - 2\<rparr>\<rparr>
      else
        (let s2 = moveBall s1 in
         if ballY (ball s2) + ballRadius (ball s2) > canvasHeight s2
         then (let s3 = s2\<lparr>lives := lives s2 - 1\<rparr> in
               if lives s3 \<le> 0 then triggerGameOver s3
               else collideAndWin (resetBall s3))
         else collideAndWin s2))"


text \<open>The number of bricks still standing.\<close>

definition aliveCount :: "breakout \<Rightarrow> nat" where
  "aliveCount s = sum_list (map (\<lambda>col. length (filter (\<lambda>b. status b = 1) col)) (bricks s))"

text \<open>The brick grid as \<^verbatim>\<open>createBricks\<close> builds it: one list per column, one brick per row.\<close>

definition wfBricks :: "breakout \<Rightarrow> bool" where
  "wfBricks s =
     (length (bricks s) = brickColumnCount s \<and>
      list_all (\<lambda>col. length col = brickRowCount s) (bricks s))"


section \<open>Space Invaders\<close>

text \<open>
  Every object with a position is a rectangle \<^verbatim>\<open>{x, y, width, height}\<close> with further fields.
  The constants of the constructor that no method changes are constants here.
\<close>

record rect =
  xpos :: real
  ypos :: real
  width :: real
  height :: real

record player = rect +
  speed :: real

record alien = rect +
  kind :: int
  alive :: bool
  alienPoints :: int

record block = rect +
  health :: int

definition alienRows :: nat where "alienRows = 5"
definition alienCols :: nat where "alienCols = 8"
definition alienWidth :: real where "alienWidth = 30"
definition alienHeight :: real where "alienHeight = 24"
definition alienPadding :: real where "alienPadding = 10"
definition alienDropAmount :: real where "alienDropAmount = 20"
definition bulletSpeed :: real where "bulletSpeed = 8"
definition alienBulletSpeed :: real where "alienBulletSpeed = 4"

record invaders = base_game +
  player :: player
  aliens :: "alien list"
  alienDirection :: real
  alienSpeed :: real
  alienMoveTimer :: int
  alienMoveInterval :: int
  playerBullets :: "rect list"
  alienBullets :: "rect list"
  canShoot :: bool
  shields :: "block list list"
  keyLeft :: bool
  keyRight :: bool
  wave :: int
  alienFrame :: int
  lastFrameTime :: real

definition createAliens :: "invaders \<Rightarrow> invaders" where
  "createAliens s =
     (let startX = (canvasWidth s - real alienCols * (alienWidth + alienPadding)) / 2;
          startY = 50
      in s\<lparr>aliens :=
             map (\<lambda>(row, col).
                   \<lparr>xpos = startX + real col * (alienWidth + alienPadding),
                    ypos = startY + real row * (alienHeight + alienPadding),
                    width = alienWidth,
                    height = alienHeight,
                    kind = (if row < 1 then 2 else if row < 3 then 1 else 0),
                    alive = True,
                    alienPoints = (int alienRows - int row) * 10\<rparr>)
               (List.product [0..<alienRows] [0..<alienCols]),
           alienDirection := 1,
           alienMoveTimer := 0\<rparr>)"

text \<open>
  One shield: a grid of 7 by 10 blocks of size 5 (\<open>35 / 5\<close> rows, \<open>50 / 5\<close> columns) without
  the arch, rows outermost.
\<close>

definition shieldBlocks :: "real \<Rightarrow> real \<Rightarrow> block list" where
  "shieldBlocks shieldX shieldY =
     map (\<lambda>(y, x). \<lparr>xpos = shieldX + real x * 5, ypos = shieldY + real y * 5,
                    width = 5, height = 5, health = 3\<rparr>)
       (filter (\<lambda>(y, x). \<not> (real y \<ge> 35 / 5 - 2 \<and> real x \<ge> 50 / 2 / 5 - 2 \<and>
                              real x \<le> 50 / 2 / 5 + 1))
          (List.product [0..<7] [0..<10]))"

definition createShields :: "invaders \<Rightarrow> invaders" where
  "createShields s =
     (let spacing = canvasWidth s / (4 + 1) in
      s\<lparr>shields :=
          map (\<lambda>i. shieldBlocks (spacing * (real i + 1) - 50 / 2) (canvasHeight s - 100))
            [0..<4]\<rparr>)"

text \<open>
  \<^verbatim>\<open>checkCollision(a, b)\<close> of this game, on two rectangles (the name with a 2 keeps it apart
  from the collision test of Tetris).
\<close>

definition checkCollision2 :: "'a rect_scheme \<Rightarrow> 'b rect_scheme \<Rightarrow> bool" where
  "checkCollision2 a b =
     (xpos a < xpos b + width b \<and>
      xpos a + width a > xpos b \<and>
      ypos a < ypos b + height b \<and>
      ypos a + height a > ypos b)"

text \<open>\<^verbatim>\<open>array.splice(i, 1)\<close>: nothing happens when \<open>i\<close> is past the end.\<close>

definition splice1 :: "nat \<Rightarrow> 'a list \<Rightarrow> 'a list" where
  "splice1 i xs = take i xs @ drop (Suc i) xs"

subsection \<open>Shields\<close>

text \<open>
  \<^verbatim>\<open>checkShieldCollision\<close>: the shields in order, the blocks of a shield from the last to
  the first; the first block the bullet overlaps loses one health point (and is removed at
  0). The result is the new shields when a block was hit (the caller's bullet array is then
  spliced at the bullet's index) and \<open>None\<close> when none was.
\<close>

fun damageFirst :: "rect \<Rightarrow> block list \<Rightarrow> block list option" where
  "damageFirst bullet [] = None"
| "damageFirst bullet (k # ks) =
     (if checkCollision2 bullet k
      then (let k1 = k\<lparr>health := health k - 1\<rparr>
            in Some (if health k1 \<le> 0 then ks else k1 # ks))
      else map_option ((#) k) (damageFirst bullet ks))"

definition damageBlocks :: "rect \<Rightarrow> block list \<Rightarrow> block list option" where
  "damageBlocks bullet blocks = map_option rev (damageFirst bullet (rev blocks))"

fun damageShields :: "rect \<Rightarrow> block list list \<Rightarrow> block list list option" where
  "damageShields bullet [] = None"
| "damageShields bullet (sh # shs) =
     (case damageBlocks bullet sh of
        Some sh1 \<Rightarrow> Some (sh1 # shs)
      | None \<Rightarrow> map_option ((#) sh) (damageShields bullet shs))"

subsection \<open>The fleet\<close>

text \<open>The first loop of \<^verbatim>\<open>moveAliens\<close>: does a living alien reach a side edge?\<close>

definition shouldDrop :: "invaders \<Rightarrow> bool" where
  "shouldDrop s =
     list_ex (\<lambda>a. alive a \<and>
                (let nextX = xpos a + alienSpeed s * alienDirection s
                 in nextX \<le> 0 \<or> nextX + width a \<ge> canvasWidth s))
       (aliens s)"

text \<open>
  The second loop when the fleet drops: each living alien moves down in turn; the loop
  (and \<^verbatim>\<open>moveAliens\<close>) returns as soon as one has reached the player's row. The flag tells
  whether that happened.
\<close>

fun dropAliens :: "real \<Rightarrow> alien list \<Rightarrow> alien list \<times> bool" where
  "dropAliens playerY [] = ([], False)"
| "dropAliens playerY (a # as) =
     (if \<not> alive a
      then (let (as1, reached) = dropAliens playerY as in (a # as1, reached))
      else (let a1 = a\<lparr>ypos := ypos a + alienDropAmount\<rparr> in
            if ypos a1 + height a1 \<ge> playerY then (a1 # as, True)
            else (let (as1, reached) = dropAliens playerY as in (a1 # as1, reached))))"

definition moveAliens :: "invaders \<Rightarrow> invaders" where
  "moveAliens s =
     (if shouldDrop s
      then (let (as1, reached) = dropAliens (ypos (player s)) (aliens s) in
            if reached then triggerGameOver (s\<lparr>aliens := as1\<rparr>)
            else s\<lparr>aliens := as1, alienDirection := alienDirection s * (-1)\<rparr>)
      else s\<lparr>aliens := map (\<lambda>a. if alive a
                                then a\<lparr>xpos := xpos a + alienSpeed s * alienDirection s\<rparr>
                                else a) (aliens s)\<rparr>)"

definition alienShoot :: "real \<Rightarrow> invaders \<Rightarrow> invaders" where
  "alienShoot rnd s =
     (let aliveAliens = filter alive (aliens s) in
      if length aliveAliens = 0 then s
      else (let shooter = aliveAliens ! nat \<lfloor>rnd * real (length aliveAliens)\<rfloor>
            in s\<lparr>alienBullets := alienBullets s @
                   [\<lparr>xpos = xpos shooter + width shooter / 2 - 2,
                     ypos = ypos shooter + height shooter,
                     width = 4, height = 12\<rparr>]\<rparr>))"

subsection \<open>Bullets\<close>

text \<open>
  The alien loop of \<^verbatim>\<open>updatePlayerBullets\<close>: the first living alien the bullet overlaps
  dies. The result is the new fleet and the alien hit, if any.
\<close>

fun shootAlien :: "rect \<Rightarrow> alien list \<Rightarrow> alien list \<times> alien option" where
  "shootAlien bullet [] = ([], None)"
| "shootAlien bullet (a # as) =
     (if alive a \<and> checkCollision2 bullet a then (a\<lparr>alive := False\<rparr> # as, Some a)
      else (let (as1, r) = shootAlien bullet as in (a # as1, r)))"

text \<open>The call of \<^verbatim>\<open>checkShieldCollision\<close> for the player's bullet at index \<open>i\<close>.\<close>

definition shieldCheckPlayer :: "rect \<Rightarrow> nat \<Rightarrow> invaders \<Rightarrow> invaders" where
  "shieldCheckPlayer bullet i s =
     (case damageShields bullet (shields s) of
        None \<Rightarrow> s
      | Some shs \<Rightarrow> s\<lparr>shields := shs, playerBullets := splice1 i (playerBullets s)\<rparr>)"

definition shieldCheckAlien :: "rect \<Rightarrow> nat \<Rightarrow> invaders \<Rightarrow> invaders" where
  "shieldCheckAlien bullet i s =
     (case damageShields bullet (shields s) of
        None \<Rightarrow> s
      | Some shs \<Rightarrow> s\<lparr>shields := shs, alienBullets := splice1 i (alienBullets s)\<rparr>)"

text \<open>The body of the loop of \<^verbatim>\<open>updatePlayerBullets\<close> for index \<open>i\<close>.\<close>

definition playerBulletStep :: "nat \<Rightarrow> invaders \<Rightarrow> invaders" where
  "playerBulletStep i s =
     (let old = playerBullets s ! i;
          bullet = old\<lparr>ypos := ypos old - bulletSpeed\<rparr>;
          s1 = s\<lparr>playerBullets := (playerBullets s)[i := bullet]\<rparr>
      in if ypos bullet + height bullet < 0
         then s1\<lparr>playerBullets := splice1 i (playerBullets s1)\<rparr>
         else (let s2 = (case shootAlien bullet (aliens s1) of
                           (as1, None) \<Rightarrow> s1
                         | (as1, Some a) \<Rightarrow>
                             (let s3 = s1\<lparr>aliens := as1,
                                          playerBullets := splice1 i (playerBullets s1)\<rparr>;
                                  s4 = addScore (alienPoints a) s3;
                                  aliveCount = int (length (filter alive (aliens s4)))
                              in s4\<lparr>alienMoveInterval :=
                                      max 100 (1000 - (int (length (aliens s4)) - aliveCount) * 20)\<rparr>))
               in shieldCheckPlayer bullet i s2))"

text \<open>The loop runs from the last index down to 0.\<close>

fun playerBulletLoop :: "nat \<Rightarrow> invaders \<Rightarrow> invaders" where
  "playerBulletLoop 0 s = s"
| "playerBulletLoop (Suc i) s = playerBulletLoop i (playerBulletStep i s)"

definition updatePlayerBullets :: "invaders \<Rightarrow> invaders" where
  "updatePlayerBullets s = playerBulletLoop (length (playerBullets s)) s"

text \<open>
  The loop of \<^verbatim>\<open>updateAlienBullets\<close>, from the last index down to 0; a bullet that hits the
  player ends the game and the loop.
\<close>

fun alienBulletLoop :: "nat \<Rightarrow> invaders \<Rightarrow> invaders" where
  "alienBulletLoop 0 s = s"
| "alienBulletLoop (Suc i) s =
     (let old = alienBullets s ! i;
          bullet = old\<lparr>ypos := ypos old + alienBulletSpeed\<rparr>;
          s1 = s\<lparr>alienBullets := (alienBullets s)[i := bullet]\<rparr>
      in if ypos bullet > canvasHeight s1
         then alienBulletLoop i (s1\<lparr>alienBullets := splice1 i (alienBullets s1)\<rparr>)
         else if checkCollision2 bullet (player s1)
         then triggerGameOver s1
         else alienBulletLoop i (shieldCheckAlien bullet i s1))"

definition updateAlienBullets :: "invaders \<Rightarrow> invaders" where
  "updateAlienBullets s = alienBulletLoop (length (alienBullets s)) s"

subsection \<open>Waves and the frame update\<close>

definition nextWave :: "invaders \<Rightarrow> invaders" where
  "nextWave s =
     (let s1 = s\<lparr>wave := wave s + 1\<rparr>;
          s2 = s1\<lparr>alienSpeed := alienSpeed s1 + 0.5\<rparr>;
          s3 = s2\<lparr>alienMoveInterval := max 200 (1000 - wave s2 * 100)\<rparr>;
          s4 = createAliens s3;
          s5 = s4\<lparr>playerBullets := [], alienBullets := []\<rparr>
      in addScore (100 * wave s5) s5)"

definition movePlayer :: "invaders \<Rightarrow> invaders" where
  "movePlayer s =
     (let p0 = player s;
          p1 = (if keyLeft s \<and> xpos p0 > 0 then p0\<lparr>xpos := xpos p0 - speed p0\<rparr> else p0);
          p2 = (if keyRight s \<and> xpos p1 < canvasWidth s - width p1
                then p1\<lparr>xpos := xpos p1 + speed p1\<rparr> else p1)
      in s\<lparr>player := p2\<rparr>)"

definition animate :: "real \<Rightarrow> invaders \<Rightarrow> invaders" where
  "animate now s =
     (if now - lastFrameTime s > 500
      then s\<lparr>alienFrame := (alienFrame s + 1) mod 2, lastFrameTime := now\<rparr>
      else s)"

definition fleetTick :: "invaders \<Rightarrow> invaders" where
  "fleetTick s =
     (let s1 = s\<lparr>alienMoveTimer := alienMoveTimer s + 16\<rparr> in
      if alienMoveTimer s1 \<ge> alienMoveInterval s1
      then moveAliens (s1\<lparr>alienMoveTimer := 0\<rparr>)
      else s1)"

text \<open>
  \<^verbatim>\<open>update\<close> up to its last statement. \<open>now\<close> is the clock, \<open>rnd1\<close> the number drawn for
  the alien's chance to shoot, \<open>rnd2\<close> the number drawn to pick the shooter.
\<close>

definition beforeWinCheck :: "real \<Rightarrow> real \<Rightarrow> real \<Rightarrow> invaders \<Rightarrow> invaders" where
  "beforeWinCheck now rnd1 rnd2 s =
     (let s1 = movePlayer s;
          s2 = animate now s1;
          s3 = fleetTick s2;
          s4 = (if rnd1 < 0.02 then alienShoot rnd2 s3 else s3);
          s5 = updatePlayerBullets s4
      in updateAlienBullets s5)"

definition invadersUpdate :: "real \<Rightarrow> real \<Rightarrow> real \<Rightarrow> invaders \<Rightarrow> invaders" where
  "invadersUpdate now rnd1 rnd2 s =
     (let s6 = beforeWinCheck now rnd1 rnd2 s in
      if list_all (\<lambda>a. \<not> alive a) (aliens s6) then nextWave s6 else s6)"


section \<open>Tetris: dropping, keys and the frame update\<close>

definition softDrop :: "tetris \<Rightarrow> tetris" where
  "softDrop s =
     (if \<not> checkCollision s (currentX s) (currentY s + 1) (currentRotation s)
      then addScore 1 (s\<lparr>currentY := currentY s + 1\<rparr>)
      else s)"

text \<open>
  The loop of \<^verbatim>\<open>hardDrop\<close> runs while the piece can go one row down; a loop that never
  ends has the value \<open>None\<close>.
\<close>

partial_function (option) hardDropLoop :: "tetris \<Rightarrow> int \<Rightarrow> (tetris \<times> int) option" where
  "hardDropLoop s dropDistance =
     (if \<not> checkCollision s (currentX s) (currentY s + 1) (currentRotation s)
      then hardDropLoop (s\<lparr>currentY := currentY s + 1\<rparr>) (dropDistance + 1)
      else Some (s, dropDistance))"

definition hardDrop :: "real \<Rightarrow> tetris \<Rightarrow> (fault + tetris) option" where
  "hardDrop rnd s =
     (case hardDropLoop s 0 of
        None \<Rightarrow> None
      | Some (s1, dropDistance) \<Rightarrow> Some (lockPiece rnd (addScore (dropDistance * 2) s1)))"

text \<open>\<open>rnd\<close> is the number drawn should the key lead to a new piece.\<close>

definition tetrisHandleKeyDown :: "string \<Rightarrow> real \<Rightarrow> tetris \<Rightarrow> (fault + tetris) option" where
  "tetrisHandleKeyDown code rnd s =
     (if code = ''ArrowLeft'' then Some (Inr (moveLeft s))
      else if code = ''ArrowRight'' then Some (Inr (moveRight s))
      else if code = ''ArrowUp'' then Some (Inr (rotatePiece s))
      else if code = ''ArrowDown'' then Some (Inr (softDrop (s\<lparr>softDropping := True\<rparr>)))
      else if code = ''Space'' then hardDrop rnd s
      else Some (Inr s))"

definition tetrisHandleKeyUp :: "string \<Rightarrow> tetris \<Rightarrow> tetris" where
  "tetrisHandleKeyUp code s = (if code = ''ArrowDown'' then s\<lparr>softDropping := False\<rparr> else s)"

definition tetrisUpdate :: "real \<Rightarrow> real \<Rightarrow> tetris \<Rightarrow> fault + tetris" where
  "tetrisUpdate now rnd s =
     (let delta = now - lastTime s;
          s1 = s\<lparr>lastTime := now\<rparr>;
          s2 = s1\<lparr>dropTimer := dropTimer s1 + delta\<rparr>;
          effectiveInterval = (if softDropping s2 then real_of_int (dropInterval s2) / 10
                               else real_of_int (dropInterval s2))
      in if dropTimer s2 \<ge> effectiveInterval
         then (let s3 = s2\<lparr>dropTimer := 0\<rparr> in
               if \<not> checkCollision s3 (currentX s3) (currentY s3 + 1) (currentRotation s3)
               then Inr (s3\<lparr>currentY := currentY s3 + 1\<rparr>)
               else lockPiece rnd s3)
         else Inr s2)"

text \<open>
  What holds of a Tetris game from \<^verbatim>\<open>init\<close> on: the board is 20 by 10 and has no full
  row between two locks, the rotation index is one of the four, the level is at least 1.
\<close>

definition tetrisInv :: "tetris \<Rightarrow> bool" where
  "tetrisInv s =
     (wfBoard (board s) \<and> list_all (\<lambda>line. \<not> isFull line) (board s) \<and>
      currentRotation s < 4 \<and> 1 \<le> level s)"

section \<open>Breakout and Space Invaders: keys\<close>

text \<open>\<open>rnd\<close> is the number drawn for the launch angle.\<close>

definition launchBall :: "real \<Rightarrow> breakout \<Rightarrow> breakout" where
  "launchBall rnd s =
     (if ballLaunched s then s
      else (let angle = (rnd * 90 - 45) * pi / 180 in
            s\<lparr>ballLaunched := True,
              ball := (ball s)\<lparr>ballDx := sin angle * ballSpeed (ball s),
                               ballDy := - cos angle * ballSpeed (ball s)\<rparr>\<rparr>))"

definition breakoutHandleKeyDown :: "string \<Rightarrow> real \<Rightarrow> breakout \<Rightarrow> breakout" where
  "breakoutHandleKeyDown code rnd s =
     (if code = ''ArrowLeft'' then s\<lparr>keysLeft := True\<rparr>
      else if code = ''ArrowRight'' then s\<lparr>keysRight := True\<rparr>
      else if code = ''Space'' then launchBall rnd s
      else s)"

definition breakoutHandleKeyUp :: "string \<Rightarrow> breakout \<Rightarrow> breakout" where
  "breakoutHandleKeyUp code s =
     (if code = ''ArrowLeft'' then s\<lparr>keysLeft := False\<rparr>
      else if code = ''ArrowRight'' then s\<lparr>keysRight := False\<rparr>
      else s)"

text \<open>
  \<^verbatim>\<open>shoot\<close> arms a timer that sets \<open>canShoot\<close> again after the cooldown; the timer's
  callback is the operation \<open>cooldownOver\<close>.
\<close>

definition shoot :: "invaders \<Rightarrow> invaders" where
  "shoot s =
     (if \<not> canShoot s then s
      else s\<lparr>playerBullets := playerBullets s @
                [\<lparr>xpos = xpos (player s) + width (player s) / 2 - 2, ypos = ypos (player s),
                  width = 4, height = 12\<rparr>],
              canShoot := False\<rparr>)"

definition cooldownOver :: "invaders \<Rightarrow> invaders" where
  "cooldownOver s = s\<lparr>canShoot := True\<rparr>"

definition invadersHandleKeyDown :: "string \<Rightarrow> invaders \<Rightarrow> invaders" where
  "invadersHandleKeyDown code s =
     (if code = ''ArrowLeft'' then s\<lparr>keyLeft := True\<rparr>
      else if code = ''ArrowRight'' then s\<lparr>keyRight := True\<rparr>
      else if code = ''Space'' then shoot s
      else s)"

definition invadersHandleKeyUp :: "string \<Rightarrow> invaders \<Rightarrow> invaders" where
  "invadersHandleKeyUp code s =
     (if code = ''ArrowLeft'' then s\<lparr>keyLeft := False\<rparr>
      else if code = ''ArrowRight'' then s\<lparr>keyRight := False\<rparr>
      else s)"

text \<open>
  What holds of the points in play from \<^verbatim>\<open>init\<close> on: no brick and no alien has negative
  points, and the wave number is not negative.
\<close>

definition brickInv :: "breakout \<Rightarrow> bool" where
  "brickInv s = (wfBricks s \<and> list_all (list_all (\<lambda>b. 0 \<le> points b)) (bricks s))"

definition invadersInv :: "invaders \<Rightarrow> bool" where
  "invadersInv s = (list_all (\<lambda>a. 0 \<le> alienPoints a) (aliens s) \<and> 0 \<le> wave s)"

text \<open>
  After a kill that leaves no alien alive the move interval is
  \<open>max 100 (1000 - 20 * length aliens)\<close>, and nothing in the rest of the frame changes it.
\<close>

definition lastKillInterval :: "invaders \<Rightarrow> bool" where
  "lastKillInterval s =
     (list_all (\<lambda>a. \<not> alive a) (aliens s)
        \<longrightarrow> alienMoveInterval s = max 100 (1000 - int (length (aliens s)) * 20))"


section \<open>Concrete states used as witnesses\<close>

definition emptyBoard :: board where
  "emptyBoard = replicate 20 (replicate 10 Zero)"

definition kickState :: tetris where
  "kickState =
     \<lparr>canvasWidth = 400, canvasHeight = 500,
      score = 0, isRunning = True, isPaused = False, animationId = None, gameOverCalls = [],
      board = emptyBoard, currentPiece = Piece_I, currentX = -2, currentY = 5,
      currentRotation = 1, nextPiece = Piece_O, dropTimer = 0, dropInterval = 1000,
      lastTime = 0, level = 1, lines = 0, softDropping = False\<rparr>"

definition oneLineBoard :: board where
  "oneLineBoard = replicate 19 (replicate 10 Zero) @ [replicate 10 (Color ''#00ffff'')]"

definition lineState :: tetris where
  "lineState =
     \<lparr>canvasWidth = 400, canvasHeight = 500,
      score = 40, isRunning = True, isPaused = False, animationId = None, gameOverCalls = [],
      board = oneLineBoard, currentPiece = Piece_I, currentX = 3, currentY = 0,
      currentRotation = 0, nextPiece = Piece_O, dropTimer = 0, dropInterval = 1000,
      lastTime = 0, level = 1, lines = 9, softDropping = False\<rparr>"

definition aboveState :: tetris where
  "aboveState =
     \<lparr>canvasWidth = 400, canvasHeight = 500,
      score = 0, isRunning = True, isPaused = False, animationId = None, gameOverCalls = [],
      board = emptyBoard, currentPiece = Piece_I, currentX = 3, currentY = -1,
      currentRotation = 1, nextPiece = Piece_O, dropTimer = 0, dropInterval = 1000,
      lastTime = 0, level = 1, lines = 0, softDropping = False\<rparr>"


text \<open>The food directly ahead of the head.\<close>

definition eatState :: snake_game where
  "eatState =
     \<lparr>canvasWidth = 400, canvasHeight = 500,
      score = 30, isRunning = True, isPaused = False, animationId = None, gameOverCalls = [],
      gridSize = 20, tileCount = (20, 25), snake = [(10, 12), (9, 12), (8, 12)],
      direction = (1, 0), nextDirection = (1, 0), food = (11, 12),
      lastMoveTime = 0, moveInterval = 120, growPending = 0\<rparr>"

text \<open>The snake lies in the corner cell \<open>(0, 0)\<close>, the food is directly ahead of the head.\<close>

definition cornerState :: snake_game where
  "cornerState =
     \<lparr>canvasWidth = 400, canvasHeight = 500,
      score = 0, isRunning = True, isPaused = False, animationId = None, gameOverCalls = [],
      gridSize = 20, tileCount = (20, 25), snake = [(1, 0), (0, 0), (0, 1)],
      direction = (1, 0), nextDirection = (1, 0), food = (2, 0),
      lastMoveTime = 0, moveInterval = 120, growPending = 0\<rparr>"

text \<open>The head in the rightmost column, heading right.\<close>

definition wallState :: snake_game where
  "wallState =
     \<lparr>canvasWidth = 400, canvasHeight = 500,
      score = 50, isRunning = True, isPaused = False, animationId = None, gameOverCalls = [],
      gridSize = 20, tileCount = (20, 25), snake = [(19, 3), (18, 3), (17, 3)],
      direction = (1, 0), nextDirection = (1, 0), food = (5, 5),
      lastMoveTime = 0, moveInterval = 120, growPending = 0\<rparr>"

text \<open>Random draws: the first attempt gives \<open>(10, 12)\<close>, the later ones \<open>(0, 0)\<close>.\<close>

definition eatDraws :: "nat \<Rightarrow> real" where
  "eatDraws k = (if k < 2 then 1 / 2 else 0)"

text \<open>
  Breakout on a 400 by 500 canvas: the ball, moving down, touches the paddle at its exact
  centre; two of the four bricks stand.
\<close>

definition bounceState :: breakout where
  "bounceState =
     \<lparr>canvasWidth = 400, canvasHeight = 500,
      score = 0, isRunning = True, isPaused = False, animationId = None, gameOverCalls = [],
      paddle = \<lparr>paddleWidth = 80, paddleHeight = 12, paddleX = 160, paddleY = 470,
                 paddleSpeed = 8\<rparr>,
      ball = \<lparr>ballX = 200, ballY = 465, ballRadius = 8, ballDx = 3, ballDy = 4,
               ballSpeed = 5\<rparr>,
      brickRowCount = 2, brickColumnCount = 2, brickWidth = 45, brickHeight = 18,
      brickPadding = 4, brickOffsetTop = 50, brickOffsetLeft = 10,
      bricks = [[\<lparr>brickX = 10, brickY = 50, status = 0, points = 20\<rparr>,
                 \<lparr>brickX = 10, brickY = 72, status = 0, points = 10\<rparr>],
                [\<lparr>brickX = 59, brickY = 50, status = 1, points = 20\<rparr>,
                 \<lparr>brickX = 59, brickY = 72, status = 1, points = 10\<rparr>]],
      lives = 3, ballLaunched = True, keysLeft = False, keysRight = False\<rparr>"


text \<open>
  Space Invaders on a 400 by 500 canvas in wave 1, no alien shot yet. The fleet has
  dropped twelve times and stands one step from the right edge (49 to the right and 240
  below where \<^verbatim>\<open>createAliens\<close> put it), its next move is due in this frame, and its bottom
  row is one drop above the player's row. The player stands at the right end, and a
  bullet of the alien in the last column, right of the last shield, is about to reach the
  player.
\<close>

definition fleetStart :: invaders where
  "fleetStart =
     \<lparr>canvasWidth = 400, canvasHeight = 500,
      score = 0, isRunning = True, isPaused = False, animationId = Some 1, gameOverCalls = [],
      player = \<lparr>xpos = 360, ypos = 460, width = 40, height = 20, speed = 6\<rparr>,
      aliens = [],
      alienDirection = 1, alienSpeed = 1, alienMoveTimer = 992, alienMoveInterval = 1000,
      playerBullets = [],
      alienBullets = [\<lparr>xpos = 382, ypos = 450, width = 4, height = 12\<rparr>],
      canShoot = True, shields = [], keyLeft = False, keyRight = True, wave = 1,
      alienFrame = 0, lastFrameTime = 74800\<rparr>"

definition doubleOverState :: invaders where
  "doubleOverState =
     (createShields fleetStart)
       \<lparr>aliens := map (\<lambda>a. a\<lparr>xpos := xpos a + 49, ypos := ypos a + 240\<rparr>)
                    (aliens (createAliens fleetStart)),
         alienMoveTimer := 992\<rparr>"

text \<open>
  Wave 1 before the fleet's first drop, 49 to the right of where \<^verbatim>\<open>createAliens\<close> put it.
  Every alien is shot but the first (top left); a player bullet, fired between the first
  two shields, is just below it; the first shield is short of one block.
\<close>

definition lastAlienState :: invaders where
  "lastAlienState =
     fleetStart
       \<lparr>score := 1150,
         player := \<lparr>xpos = 90, ypos = 460, width = 40, height = 20, speed = 6\<rparr>,
         aliens := \<lparr>xpos = 89, ypos = 50, width = 30, height = 24, kind = 2, alive = True,
                      alienPoints = 50\<rparr>
                   # map (\<lambda>a. a\<lparr>xpos := xpos a + 49, alive := False\<rparr>)
                       (tl (aliens (createAliens fleetStart))),
         alienMoveTimer := 96, alienMoveInterval := 220,
         playerBullets := [\<lparr>xpos = 108, ypos = 76, width = 4, height = 12\<rparr>],
         alienBullets := [],
         canShoot := False, keyRight := False,
         shields := (shields (createShields fleetStart))
                      [0 := tl (shields (createShields fleetStart) ! 0)]\<rparr>"


section \<open>Tetris: rotation with wall kicks\<close>

lemma tryKicks_all_blocked:
  "\<forall>k \<in> set ks. checkCollision s (currentX s + k) (currentY s) r \<Longrightarrow> tryKicks s r ks = s"
  by (induction ks) auto

lemma tryKicks_first:
  assumes "i < length ks"
    and "\<not> checkCollision s (currentX s + ks ! i) (currentY s) r"
    and "\<forall>j<i. checkCollision s (currentX s + ks ! j) (currentY s) r"
  shows "tryKicks s r ks = s\<lparr>currentX := currentX s + ks ! i, currentRotation := r\<rparr>"
  using assms
proof (induction ks arbitrary: i)
  case Nil
  then show ?case by simp
next
  case (Cons k ks)
  show ?case
  proof (cases i)
    case 0
    with Cons.prems show ?thesis by simp
  next
    case (Suc n)
    from Cons.prems(3) Suc have blocked: "checkCollision s (currentX s + k) (currentY s) r"
      by auto
    have "tryKicks s r ks = s\<lparr>currentX := currentX s + ks ! n, currentRotation := r\<rparr>"
    proof (rule Cons.IH)
      show "n < length ks" using Cons.prems(1) Suc by simp
      show "\<not> checkCollision s (currentX s + ks ! n) (currentY s) r"
        using Cons.prems(2) Suc by simp
      show "\<forall>j<n. checkCollision s (currentX s + ks ! j) (currentY s) r"
        using Cons.prems(3) Suc by auto
    qed
    with blocked Suc show ?thesis by simp
  qed
qed

text \<open>
  C7. When the rotated piece collides at the current x, \<^verbatim>\<open>rotate\<close> tries the offsets
  \<open>[-1, 1, -2, 2]\<close> in this order. If the offset at index \<open>i\<close> is the first one at which the
  rotated piece does not collide, the piece ends at its old x plus exactly that offset, in
  the new rotation, and nothing else changes. If every offset collides, the state is
  unchanged (position and rotation included).
\<close>

theorem rotate_wall_kick:
  assumes "checkCollision s (currentX s) (currentY s) ((currentRotation s + 1) mod 4)"
  shows "(\<forall>i<length kicks.
            \<not> checkCollision s (currentX s + kicks ! i) (currentY s)
                ((currentRotation s + 1) mod 4) \<and>
            (\<forall>j<i. checkCollision s (currentX s + kicks ! j) (currentY s)
                ((currentRotation s + 1) mod 4)) \<longrightarrow>
            rotatePiece s = s\<lparr>currentX := currentX s + kicks ! i,
                         currentRotation := (currentRotation s + 1) mod 4\<rparr>) \<and>
         ((\<forall>k \<in> set kicks. checkCollision s (currentX s + k) (currentY s)
                ((currentRotation s + 1) mod 4)) \<longrightarrow>
            rotatePiece s = s)"
proof (intro conjI allI impI)
  fix i
  assume "i < length kicks"
    and "\<not> checkCollision s (currentX s + kicks ! i) (currentY s)
            ((currentRotation s + 1) mod 4) \<and>
         (\<forall>j<i. checkCollision s (currentX s + kicks ! j) (currentY s)
            ((currentRotation s + 1) mod 4))"
  then have "tryKicks s ((currentRotation s + 1) mod 4) kicks =
      s\<lparr>currentX := currentX s + kicks ! i, currentRotation := (currentRotation s + 1) mod 4\<rparr>"
    by (intro tryKicks_first) auto
  with assms show "rotatePiece s = s\<lparr>currentX := currentX s + kicks ! i,
      currentRotation := (currentRotation s + 1) mod 4\<rparr>"
    by (simp add: rotatePiece_def Let_def)
next
  assume "\<forall>k \<in> set kicks. checkCollision s (currentX s + k) (currentY s)
      ((currentRotation s + 1) mod 4)"
  then have "tryKicks s ((currentRotation s + 1) mod 4) kicks = s"
    by (rule tryKicks_all_blocked)
  with assms show "rotatePiece s = s"
    by (simp add: rotatePiece_def Let_def)
qed

lemma kick_eval:
  "checkCollision kickState (-2) 5 2" "checkCollision kickState (-3) 5 2"
  "checkCollision kickState (-1) 5 2" "checkCollision kickState (-4) 5 2"
  "\<not> checkCollision kickState 0 5 2"
  by (simp_all add: checkCollision_def kickState_def shapeCells_def rowCells_def
      cellBlocked_def cols_def rows_def emptyBoard_def)

theorem rotate_wall_kick_witness:
  "checkCollision kickState (currentX kickState) (currentY kickState)
      ((currentRotation kickState + 1) mod 4) \<and>
   checkCollision kickState (currentX kickState + kicks ! 0) (currentY kickState) 2 \<and>
   checkCollision kickState (currentX kickState + kicks ! 1) (currentY kickState) 2 \<and>
   checkCollision kickState (currentX kickState + kicks ! 2) (currentY kickState) 2 \<and>
   \<not> checkCollision kickState (currentX kickState + kicks ! 3) (currentY kickState) 2 \<and>
   currentX (rotatePiece kickState) = 0 \<and> currentRotation (rotatePiece kickState) = 2 \<and>
   currentY (rotatePiece kickState) = 5"
proof -
  have sel: "currentX kickState = -2" "currentY kickState = 5"
    by (simp_all add: kickState_def)
  have nr: "(currentRotation kickState + 1) mod 4 = 2"
    by (simp add: kickState_def)
  have ks: "kicks ! 0 = -1" "kicks ! 1 = 1" "kicks ! 2 = -2" "kicks ! 3 = 2" "length kicks = 4"
    by (simp_all add: kicks_def)
  have h: "checkCollision kickState (currentX kickState) (currentY kickState)
      ((currentRotation kickState + 1) mod 4)"
    unfolding nr sel using kick_eval by simp
  have blocked: "\<forall>j<3. checkCollision kickState (currentX kickState + kicks ! j)
      (currentY kickState) ((currentRotation kickState + 1) mod 4)"
  proof (intro allI impI)
    fix j :: nat assume "j < 3"
    then have "j = 0 \<or> j = 1 \<or> j = 2" by arith
    then show "checkCollision kickState (currentX kickState + kicks ! j)
      (currentY kickState) ((currentRotation kickState + 1) mod 4)"
      unfolding nr sel using kick_eval ks by auto
  qed
  have free: "\<not> checkCollision kickState (currentX kickState + kicks ! 3)
      (currentY kickState) ((currentRotation kickState + 1) mod 4)"
    unfolding nr sel ks using kick_eval by simp
  have len: "3 < length kicks" by (simp add: kicks_def)
  have "rotatePiece kickState = kickState\<lparr>currentX := currentX kickState + kicks ! 3,
      currentRotation := (currentRotation kickState + 1) mod 4\<rparr>"
    by (rule rotate_wall_kick [OF h, THEN conjunct1, rule_format, of 3,
          OF len conjI [OF free blocked]])
  then show ?thesis
    unfolding nr sel ks using kick_eval by (simp add: sel)
qed


section \<open>Tetris: line clearing, score and level\<close>

lemma clearLoop_no_full:
  "\<forall>line \<in> set b. \<not> isFull line \<Longrightarrow> y < int (length b) \<Longrightarrow> clearLoop y b n = Inr (b, n)"
proof (induction "nat (y + 1)" arbitrary: y)
  case 0
  then have "y < 0" by simp
  then show ?case by (subst clearLoop.simps) simp
next
  case (Suc k)
  then have y: "0 \<le> y" "nat y < length b" by auto
  then have "\<not> isFull (b ! nat y)" using Suc.prems(1) by simp
  moreover have "clearLoop (y - 1) b n = Inr (b, n)"
    using Suc by (intro Suc.hyps(1)) auto
  ultimately show ?case using y Suc.prems(2) by (subst clearLoop.simps) simp
qed

lemma clearLoop_oneLine: "clearLoop (rows - 1) oneLineBoard 0 = Inr (emptyBoard, 1)"
proof -
  have full: "isFull (oneLineBoard ! 19)"
    by (simp add: oneLineBoard_def nth_append isFull_def list_all_iff)
  have rest: "emptyLine # (take 19 oneLineBoard @ drop 20 oneLineBoard) = emptyBoard"
    by (simp add: oneLineBoard_def emptyLine_def emptyBoard_def cols_def flip: replicate_Suc)
  have "clearLoop 19 emptyBoard 1 = Inr (emptyBoard, 1)"
    by (rule clearLoop_no_full) (auto simp: emptyBoard_def isFull_def list_all_iff)
  then have "clearLoop 19 oneLineBoard 0 = Inr (emptyBoard, 1)"
    using full rest by (subst clearLoop.simps) (simp add: oneLineBoard_def)
  then show ?thesis by (simp add: rows_def)
qed

text \<open>
  C2. A lock that clears \<open>linesCleared\<close> rows, between 1 and 4, awards
  \<open>[0, 100, 300, 500, 800][linesCleared]\<close> times the level the piece was locked at; the
  cumulative line count grows by \<open>linesCleared\<close>; the level becomes
  \<open>lines div 10 + 1\<close>; and when the level went up the drop interval is
  \<open>max 100 (1000 - (level - 1) * 100)\<close>, otherwise it is left alone. The level is
  \<open>lines div 10 + 1\<close> from \<^verbatim>\<open>init\<close> on (level 1, no lines), which is the state the
  theorem starts from and ends in.
\<close>

theorem clearLines_scoring:
  assumes loop: "clearLoop (rows - 1) (board s) 0 = Inr (b, linesCleared)"
    and n: "1 \<le> linesCleared" "linesCleared \<le> 4"
    and lv: "level s = lines s div 10 + 1"
  shows "\<exists>s'. clearLines s = Inr s' \<and>
           board s' = b \<and>
           score s' = score s + [0, 100, 300, 500, 800] ! linesCleared * level s \<and>
           lines s' = lines s + int linesCleared \<and>
           level s' = lines s' div 10 + 1 \<and>
           (if level s < level s'
            then dropInterval s' = max 100 (1000 - (level s' - 1) * 100)
            else dropInterval s' = dropInterval s)"
proof -
  have pts: "linePoints linesCleared = Some ([0, 100, 300, 500, 800] ! linesCleared)"
    using n by (simp add: linePoints_def)
  have mono: "lines s div 10 \<le> (lines s + int linesCleared) div 10"
    by (rule zdiv_mono1) auto
  show ?thesis
    using loop n pts lv mono
    by (auto simp: clearLines_def Let_def addScore_def)
qed

theorem clearLines_scoring_witness:
  "clearLoop (rows - 1) (board lineState) 0 = Inr (emptyBoard, 1) \<and>
   level lineState = lines lineState div 10 + 1 \<and> level lineState = 1 \<and>
   (\<exists>s'. clearLines lineState = Inr s' \<and> score s' = score lineState + 100 \<and>
      lines s' = 10 \<and> level s' = 2 \<and> dropInterval s' = 900)"
proof -
  have loop: "clearLoop (rows - 1) (board lineState) 0 = Inr (emptyBoard, 1)"
    using clearLoop_oneLine by (simp add: lineState_def)
  have lv: "level lineState = lines lineState div 10 + 1"
    by (simp add: lineState_def)
  from clearLines_scoring [OF loop _ _ lv]
  obtain s' where "clearLines lineState = Inr s'"
    "score s' = score lineState + [0, 100, 300, 500, 800] ! 1 * level lineState"
    "lines s' = lines lineState + int 1"
    "level s' = lines s' div 10 + 1"
    "if level lineState < level s'
     then dropInterval s' = max 100 (1000 - (level s' - 1) * 100)
     else dropInterval s' = dropInterval lineState"
    by auto
  then have "clearLines lineState = Inr s' \<and> score s' = score lineState + 100 \<and>
      lines s' = 10 \<and> level s' = 2 \<and> dropInterval s' = 900"
    by (simp add: lineState_def)
  with loop lv show ?thesis by (auto simp: lineState_def)
qed

section \<open>Tetris: locking writes inside the board only\<close>

lemma wfBoard_length: "wfBoard b \<Longrightarrow> length b = 20"
  by (simp add: wfBoard_def rows_def)

lemma wfBoard_row: "wfBoard b \<Longrightarrow> i < 20 \<Longrightarrow> length (b ! i) = 10"
  by (simp add: wfBoard_def rows_def cols_def list_all_length)

lemma wfBoard_update:
  assumes "wfBoard b"
  shows "wfBoard (b[i := (b ! i)[j := v]])"
  using assms
  by (cases "i < length b") (auto simp: wfBoard_def list_all_length nth_list_update)

lemma setCell_in_bounds:
  assumes "wfBoard b" and "0 \<le> boardY" and "boardY < rows" and "0 \<le> boardX" and "boardX < cols"
  shows "setCell b boardY boardX c =
           Inr (b[nat boardY := (b ! nat boardY)[nat boardX := Color c]])"
proof -
  have "nat boardY < 20" using assms(2,3) by (simp add: rows_def)
  then have "length (b ! nat boardY) = 10" using assms(1) by (rule wfBoard_row [rotated])
  with assms wfBoard_length [OF assms(1)] show ?thesis
    by (simp add: setCell_def rows_def cols_def)
qed

lemma lockCells_in_bounds:
  assumes "wfBoard b"
  shows "\<exists>b'. lockCells b x y c cs = Inr b' \<and> wfBoard b' \<and>
           (\<forall>i<20. \<forall>j<10. b' ! i ! j =
              (if (int j - x, int i - y) \<in> set cs then Color c else b ! i ! j))"
  using assms
proof (induction cs arbitrary: b)
  case Nil
  then show ?case by simp
next
  case (Cons cell cs)
  obtain col row where cell: "cell = (col, row)" by (cases cell)
  show ?case
  proof (cases "y + row \<ge> 0 \<and> y + row < rows \<and> x + col \<ge> 0 \<and> x + col < cols")
    case True
    let ?b1 = "b[nat (y + row) := (b ! nat (y + row))[nat (x + col) := Color c]]"
    have set: "setCell b (y + row) (x + col) c = Inr ?b1"
      using Cons.prems True by (intro setCell_in_bounds) auto
    have wf1: "wfBoard ?b1" using Cons.prems by (rule wfBoard_update)
    from Cons.IH [OF wf1] obtain b' where b':
      "lockCells ?b1 x y c cs = Inr b'" "wfBoard b'"
      "\<forall>i<20. \<forall>j<10. b' ! i ! j =
          (if (int j - x, int i - y) \<in> set cs then Color c else ?b1 ! i ! j)"
      by blast
    have eq: "lockCells b x y c (cell # cs) = Inr b'"
      using True set b'(1) by (simp add: cell Let_def)
    have "b' ! i ! j = (if (int j - x, int i - y) \<in> set (cell # cs) then Color c else b ! i ! j)"
      if ij: "i < 20" "j < 10" for i j
    proof -
      have len: "length b = 20" "length (b ! i) = 10"
        using Cons.prems ij wfBoard_length wfBoard_row by auto
      have upd: "?b1 ! i ! j = (if (int j - x, int i - y) = (col, row) then Color c else b ! i ! j)"
        using True ij len by (auto simp: nth_list_update rows_def cols_def)
      show ?thesis using b'(3) ij upd by (auto simp: cell)
    qed
    with eq b'(2) show ?thesis by blast
  next
    case False
    from Cons.IH [OF Cons.prems] obtain b' where b':
      "lockCells b x y c cs = Inr b'" "wfBoard b'"
      "\<forall>i<20. \<forall>j<10. b' ! i ! j =
          (if (int j - x, int i - y) \<in> set cs then Color c else b ! i ! j)"
      by blast
    have eq: "lockCells b x y c (cell # cs) = Inr b'"
      using False b'(1) by (auto simp add: cell Let_def)
    have ne: "(int j - x, int i - y) \<noteq> (col, row)" if "i < 20" "j < 10" for i j :: nat
      using False that by (auto simp: rows_def cols_def)
    have "b' ! i ! j =
          (if (int j - x, int i - y) \<in> set (cell # cs) then Color c else b ! i ! j)"
      if "i < 20" "j < 10" for i j
      using b'(3) ne [OF that] that by (auto simp: cell)
    with eq b'(2) show ?thesis by blast
  qed
qed

text \<open>
  C10. On a board of 20 rows of 10 cells, the write loop of \<^verbatim>\<open>lockPiece\<close> never faults,
  whatever the position and rotation of the piece: no row index outside the board array is
  read and no row is written outside its 10 columns. The board keeps its 20 by 10 form, and
  a cell \<open>(i, j)\<close> of it holds the piece's colour exactly when the piece occupies it and
  its old content otherwise. Occupied cells of the piece that lie above the board (or
  anywhere else off it) therefore leave no trace: they are skipped, not written and not an
  error.
\<close>

theorem lockPiece_writes_in_bounds:
  assumes "wfBoard (board s)"
  shows "\<exists>b'. lockWrite s = Inr b' \<and> wfBoard b' \<and>
           (\<forall>i<20. \<forall>j<10. b' ! i ! j =
              (if (int j - currentX s, int i - currentY s)
                    \<in> set (shapeCells (getPieceShape s (currentRotation s)))
               then Color (getPieceColor s) else board s ! i ! j))"
  unfolding lockWrite_def using assms by (rule lockCells_in_bounds)

lemma aboveState_cells:
  "shapeCells (getPieceShape aboveState (currentRotation aboveState)) = [(2, 0), (2, 1), (2, 2), (2, 3)]"
  by (simp add: aboveState_def getPieceShape_def shapeCells_def rowCells_def)

lemma wfBoard_emptyBoard: "wfBoard emptyBoard"
  by (simp add: wfBoard_def emptyBoard_def rows_def cols_def list_all_iff)

theorem lockPiece_writes_in_bounds_witness:
  "wfBoard (board aboveState) \<and> currentY aboveState = -1 \<and>
   (\<exists>b'. lockWrite aboveState = Inr b' \<and> wfBoard b' \<and>
      b' ! 0 ! 5 = Color ''#00ffff'' \<and> b' ! 1 ! 5 = Color ''#00ffff'' \<and>
      b' ! 2 ! 5 = Color ''#00ffff'' \<and> b' ! 3 ! 5 = Zero \<and> b' ! 0 ! 4 = Zero)"
proof -
  have wf: "wfBoard (board aboveState)"
    using wfBoard_emptyBoard by (simp add: aboveState_def)
  from lockPiece_writes_in_bounds [OF wf] obtain b' where b':
    "lockWrite aboveState = Inr b'" "wfBoard b'"
    "\<forall>i<20. \<forall>j<10. b' ! i ! j =
       (if (int j - currentX aboveState, int i - currentY aboveState)
             \<in> set (shapeCells (getPieceShape aboveState (currentRotation aboveState)))
        then Color (getPieceColor aboveState) else board aboveState ! i ! j)"
    by blast
  have sel: "currentX aboveState = 3" "currentY aboveState = -1"
    "getPieceColor aboveState = ''#00ffff''" "board aboveState = emptyBoard"
    by (simp_all add: aboveState_def getPieceColor_def)
  have "b' ! 0 ! 5 = Color ''#00ffff''" "b' ! 1 ! 5 = Color ''#00ffff''"
    "b' ! 2 ! 5 = Color ''#00ffff''" "b' ! 3 ! 5 = Zero" "b' ! 0 ! 4 = Zero"
    using b'(3) by (simp_all add: aboveState_cells sel emptyBoard_def)
  with wf b'(1,2) sel(2) show ?thesis by blast
qed

section \<open>Snake: the food loop\<close>

lemma spawnFoodLoop_fields:
  "spawnFoodLoop rnd s v a = s\<lparr>food := food (spawnFoodLoop rnd s v a)\<rparr>"
proof (induction rnd s v a rule: spawnFoodLoop.induct)
  case (1 rnd s validPosition attempts)
  show ?case
  proof (cases "\<not> validPosition \<and> attempts < 100")
    case True
    let ?s1 = "s\<lparr>food := drawCell rnd (tileCount s) attempts\<rparr>"
    let ?r = "spawnFoodLoop rnd ?s1 (\<not> onSnake (snake ?s1) (food ?s1)) (attempts + 1)"
    have unfold: "spawnFoodLoop rnd s validPosition attempts = ?r"
      using True by (subst spawnFoodLoop.simps) (simp add: Let_def)
    have "?r = ?s1\<lparr>food := food ?r\<rparr>"
      using True by (intro "1.IH") auto
    then have "?r = s\<lparr>food := food ?r\<rparr>" by simp
    then show ?thesis unfolding unfold .
  next
    case False
    then show ?thesis by (subst (1 2) spawnFoodLoop.simps) auto
  qed
qed

lemma spawnFoodLoop_first_free:
  assumes "a \<le> k" and "k < 100"
    and "\<not> onSnake (snake s) (drawCell rnd (tileCount s) k)"
    and "\<forall>j. a \<le> j \<and> j < k \<longrightarrow> onSnake (snake s) (drawCell rnd (tileCount s) j)"
  shows "food (spawnFoodLoop rnd s False a) = drawCell rnd (tileCount s) k"
  using assms
proof (induction "k - a" arbitrary: a s)
  case 0
  then have "a = k" by simp
  let ?s1 = "s\<lparr>food := drawCell rnd (tileCount s) k\<rparr>"
  have "spawnFoodLoop rnd s False k = spawnFoodLoop rnd ?s1 True (k + 1)"
    using 0 by (subst spawnFoodLoop.simps) (simp add: Let_def)
  also have "\<dots> = ?s1" by (subst spawnFoodLoop.simps) simp
  finally show ?case using \<open>a = k\<close> by simp
next
  case (Suc n)
  then have lt: "a < k" by simp
  let ?s1 = "s\<lparr>food := drawCell rnd (tileCount s) a\<rparr>"
  have hit: "onSnake (snake s) (drawCell rnd (tileCount s) a)"
    using Suc.prems(4) lt by simp
  have "spawnFoodLoop rnd s False a = spawnFoodLoop rnd ?s1 False (a + 1)"
    using hit lt Suc.prems(2) by (subst spawnFoodLoop.simps) (simp add: Let_def)
  moreover have "food (spawnFoodLoop rnd ?s1 False (a + 1)) = drawCell rnd (tileCount ?s1) k"
    using Suc by (intro Suc.hyps(1)) auto
  ultimately show ?case by simp
qed

lemma spawnFoodLoop_none_free:
  assumes "a < 100"
    and "\<forall>j. a \<le> j \<and> j < 100 \<longrightarrow> onSnake (snake s) (drawCell rnd (tileCount s) j)"
  shows "food (spawnFoodLoop rnd s False a) = drawCell rnd (tileCount s) 99"
  using assms
proof (induction "99 - a" arbitrary: a s)
  case 0
  then have "a = 99" by simp
  let ?s1 = "s\<lparr>food := drawCell rnd (tileCount s) 99\<rparr>"
  have "spawnFoodLoop rnd s False 99 = spawnFoodLoop rnd ?s1 False 100"
    using 0 \<open>a = 99\<close> by (subst spawnFoodLoop.simps) (simp add: Let_def)
  also have "\<dots> = ?s1" by (subst spawnFoodLoop.simps) simp
  finally show ?case using \<open>a = 99\<close> by simp
next
  case (Suc n)
  then have lt: "a < 99" by simp
  let ?s1 = "s\<lparr>food := drawCell rnd (tileCount s) a\<rparr>"
  have hit: "onSnake (snake s) (drawCell rnd (tileCount s) a)"
    using Suc.prems(2) lt by simp
  have "spawnFoodLoop rnd s False a = spawnFoodLoop rnd ?s1 False (a + 1)"
    using hit lt by (subst spawnFoodLoop.simps) (simp add: Let_def)
  moreover have "food (spawnFoodLoop rnd ?s1 False (a + 1)) = drawCell rnd (tileCount ?s1) 99"
    using Suc by (intro Suc.hyps(1)) auto
  ultimately show ?case by simp
qed

lemma onSnake_iff: "onSnake segs p \<longleftrightarrow> p \<in> set segs"
  by (auto simp: onSnake_def list_ex_iff prod_eq_iff)

section \<open>Snake: one step, case by case\<close>

lemma spawnFood_fields: "spawnFood rnd s = s\<lparr>food := food (spawnFood rnd s)\<rparr>"
  unfolding spawnFood_def by (rule spawnFoodLoop_fields)

lemma snakeUpdate_wait:
  "now - lastMoveTime s < moveInterval s \<Longrightarrow> snakeUpdate now rnd s = Inr s"
  by (simp add: snakeUpdate_def)

lemma snakeUpdate_unfold:
  assumes "snake s \<noteq> []"
  shows "snakeUpdate now rnd s =
     (if now - lastMoveTime s < moveInterval s then Inr s
      else if \<not> inGrid (tileCount s) (stepHead s) then Inr (triggerGameOver (stepStart now s))
      else if onSnake (snake s) (stepHead s) then Inr (triggerGameOver (stepStart now s))
      else if stepHead s = food s
        then Inr (removeTail (eatFood rnd ((stepStart now s)\<lparr>snake := stepHead s # snake s\<rparr>)))
      else Inr (removeTail ((stepStart now s)\<lparr>snake := stepHead s # snake s\<rparr>)))"
proof -
  obtain h t where ht: "snake s = h # t" using assms by (cases "snake s") auto
  have sel: "snake (stepStart now s) = h # t" "direction (stepStart now s) = nextDirection s"
    "tileCount (stepStart now s) = tileCount s" "food (stepStart now s) = food s"
    by (simp_all add: stepStart_def ht)
  have hd: "(fst h + fst (nextDirection s), snd h + snd (nextDirection s)) = stepHead s"
    by (simp add: stepHead_def ht)
  have grid: "(fst (stepHead s) < 0 \<or> fst (tileCount s) \<le> fst (stepHead s) \<or>
         snd (stepHead s) < 0 \<or> snd (tileCount s) \<le> snd (stepHead s))
         \<longleftrightarrow> \<not> inGrid (tileCount s) (stepHead s)"
    by (auto simp: inGrid_def)
  have eat: "fst (stepHead s) = fst (food s) \<and> snd (stepHead s) = snd (food s)
       \<longleftrightarrow> stepHead s = food s"
    by (simp add: prod_eq_iff)
  show ?thesis
    unfolding snakeUpdate_def Let_def sel list.case hd
    by (simp only: sel hd grid eat simp_thms ht select_convs surjective update_convs cong: if_cong)
      (simp add: sel eat)
qed

section \<open>Snake: direction changes\<close>



lemma snakeHandleKeyDown_snake: "snake (snakeHandleKeyDown code s) = snake s"
  unfolding snakeHandleKeyDown_def by (simp split del: if_split cong: if_cong add: if_distrib [of snake])





section \<open>Snake: eating\<close>

lemma removeTail_score: "score (removeTail s) = score s"
  by (simp add: removeTail_def)

lemma spawnFood_first_free:
  assumes "k < 100" and "\<not> onSnake (snake s) (drawCell rnd (tileCount s) k)"
    and "\<forall>j<k. onSnake (snake s) (drawCell rnd (tileCount s) j)"
  shows "food (spawnFood rnd s) = drawCell rnd (tileCount s) k"
  unfolding spawnFood_def using assms by (intro spawnFoodLoop_first_free) auto

lemma spawnFood_none_free:
  assumes "\<forall>j<100. onSnake (snake s) (drawCell rnd (tileCount s) j)"
  shows "food (spawnFood rnd s) = drawCell rnd (tileCount s) 99"
  unfolding spawnFood_def using assms by (intro spawnFoodLoop_none_free) auto

lemma eatFood_eq:
  "eatFood rnd s = s\<lparr>score := score s + 10, growPending := growPending s + 1,
      food := food (spawnFood rnd (s\<lparr>score := score s + 10, growPending := growPending s + 1\<rparr>)),
      moveInterval := max 50 (moveInterval s - 2)\<rparr>"
proof -
  let ?x = "s\<lparr>score := score s + 10, growPending := growPending s + 1\<rparr>"
  have sf: "spawnFood rnd ?x = ?x\<lparr>food := food (spawnFood rnd ?x)\<rparr>"
    by (rule spawnFood_fields)
  have mi: "moveInterval (spawnFood rnd ?x) = moveInterval s"
    by (subst sf) simp
  have "eatFood rnd s = (spawnFood rnd ?x)\<lparr>moveInterval := max 50 (moveInterval s - 2)\<rparr>"
    by (simp add: eatFood_def Let_def addScore_def mi)
  also have "\<dots> = (?x\<lparr>food := food (spawnFood rnd ?x)\<rparr>)\<lparr>moveInterval := max 50 (moveInterval s - 2)\<rparr>"
    by (rule arg_cong [where f = "\<lambda>u. u\<lparr>moveInterval := max 50 (moveInterval s - 2)\<rparr>", OF sf])
  finally show ?thesis by simp
qed

lemma snakeUpdate_eat:
  assumes "moveInterval s \<le> now - lastMoveTime s" and "snake s \<noteq> []"
    and "inGrid (tileCount s) (stepHead s)" and "\<not> onSnake (snake s) (stepHead s)"
    and "stepHead s = food s" and "growPending s = 0"
  shows "snakeUpdate now rnd s =
    Inr (s\<lparr>lastMoveTime := now, direction := nextDirection s,
           snake := stepHead s # snake s, score := score s + 10,
           food := food (spawnFood rnd (s\<lparr>snake := stepHead s # snake s\<rparr>)),
           moveInterval := max 50 (moveInterval s - 2)\<rparr>)"
proof -
  let ?s2 = "(stepStart now s)\<lparr>snake := stepHead s # snake s\<rparr>"
  have up: "snakeUpdate now rnd s = Inr (removeTail (eatFood rnd ?s2))"
    unfolding snakeUpdate_unfold [OF assms(2)] using assms by simp
  have f1: "food (spawnFood rnd (?s2\<lparr>score := score ?s2 + 10, growPending := growPending ?s2 + 1\<rparr>))
      = food (spawnFood rnd (s\<lparr>snake := stepHead s # snake s\<rparr>))"
    (is "food (spawnFood rnd ?a) = food (spawnFood rnd ?b)")
  proof -
    have "food (spawnFoodLoop rnd x v n) = food (spawnFoodLoop rnd y v n)"
      if "snake x = snake y" "tileCount x = tileCount y" "v \<or> 100 \<le> n \<longrightarrow> food x = food y"
      for x y :: snake_game and v n
      using that
    proof (induction rnd x v n arbitrary: y rule: spawnFoodLoop.induct)
      case (1 rnd x v n)
      show ?case
      proof (cases "\<not> v \<and> n < 100")
        case True
        let ?x1 = "x\<lparr>food := drawCell rnd (tileCount x) n\<rparr>"
        let ?y1 = "y\<lparr>food := drawCell rnd (tileCount y) n\<rparr>"
        have "food (spawnFoodLoop rnd ?x1 (\<not> onSnake (snake ?x1) (food ?x1)) (n + 1)) =
              food (spawnFoodLoop rnd ?y1 (\<not> onSnake (snake ?x1) (food ?x1)) (n + 1))"
          using True "1.prems" by (intro "1.IH") auto
        then show ?thesis
          using True "1.prems"
          by (subst (1 2) spawnFoodLoop.simps) (simp add: Let_def)
      next
        case False
        then show ?thesis using "1.prems"
          by (subst (1 2) spawnFoodLoop.simps) auto
      qed
    qed
    then show ?thesis unfolding spawnFood_def by (simp add: stepStart_def)
  qed
  show ?thesis
    unfolding up eatFood_eq f1 using assms(6)
    by (simp add: removeTail_def stepStart_def)
qed

lemma snakeUpdate_move:
  assumes "moveInterval s \<le> now - lastMoveTime s" and "snake s \<noteq> []"
    and "inGrid (tileCount s) (stepHead s)" and "\<not> onSnake (snake s) (stepHead s)"
    and "stepHead s \<noteq> food s" and "growPending s = 0"
  shows "snakeUpdate now rnd s =
    Inr (s\<lparr>lastMoveTime := now, direction := nextDirection s,
           snake := butlast (stepHead s # snake s)\<rparr>)"
  unfolding snakeUpdate_unfold [OF assms(2)] using assms
  by (simp add: removeTail_def stepStart_def)

lemma stepHead_after_eat:
  "stepHead (s\<lparr>lastMoveTime := a, direction := b, snake := h # t, score := c, food := d,
       moveInterval := e\<rparr>) = (fst h + fst (nextDirection s), snd h + snd (nextDirection s))"
  by (simp add: stepHead_def)

text \<open>
  C5, as the code has it. In a step whose new head cell is the food cell, the head is
  added and no tail cell is removed, so the snake is one cell longer; the score grows by
  10; the growth counter is back at 0. The food moves to the first of the up to 100 cells
  drawn that the snake (new head included) does not occupy. When all 100 cells drawn are
  occupied, the food is left at the last cell drawn, which is on the snake. A following
  step that neither eats nor ends the run moves the snake without changing its length, so
  the net growth over the two steps is exactly one cell.
\<close>

theorem snake_eats_food:
  assumes gate: "moveInterval s \<le> now - lastMoveTime s" and ne: "snake s \<noteq> []"
    and grid: "inGrid (tileCount s) (stepHead s)"
    and free: "\<not> onSnake (snake s) (stepHead s)"
    and eat: "stepHead s = food s" and gp: "growPending s = 0"
  shows "\<exists>s1. snakeUpdate now rnd s = Inr s1 \<and>
      snake s1 = stepHead s # snake s \<and> length (snake s1) = length (snake s) + 1 \<and>
      score s1 = score s + 10 \<and> growPending s1 = 0 \<and>
      (\<forall>k<100. \<not> onSnake (snake s1) (drawCell rnd (tileCount s) k) \<and>
                (\<forall>j<k. onSnake (snake s1) (drawCell rnd (tileCount s) j))
          \<longrightarrow> food s1 = drawCell rnd (tileCount s) k \<and> \<not> onSnake (snake s1) (food s1)) \<and>
      ((\<forall>j<100. onSnake (snake s1) (drawCell rnd (tileCount s) j))
          \<longrightarrow> food s1 = drawCell rnd (tileCount s) 99 \<and> onSnake (snake s1) (food s1)) \<and>
      (\<forall>now' rnd'. moveInterval s1 \<le> now' - lastMoveTime s1 \<and>
           inGrid (tileCount s1) (stepHead s1) \<and> \<not> onSnake (snake s1) (stepHead s1) \<and>
           stepHead s1 \<noteq> food s1
          \<longrightarrow> (\<exists>s2. snakeUpdate now' rnd' s1 = Inr s2 \<and>
                 length (snake s2) = length (snake s) + 1 \<and> score s2 = score s + 10))"
proof -
  let ?x = "s\<lparr>snake := stepHead s # snake s\<rparr>"
  let ?s1 = "s\<lparr>lastMoveTime := now, direction := nextDirection s,
           snake := stepHead s # snake s, score := score s + 10,
           food := food (spawnFood rnd ?x),
           moveInterval := max 50 (moveInterval s - 2)\<rparr>"
  have up: "snakeUpdate now rnd s = Inr ?s1"
    using assms by (rule snakeUpdate_eat)
  have sel: "snake ?s1 = stepHead s # snake s" "score ?s1 = score s + 10"
    "growPending ?s1 = 0" "food ?s1 = food (spawnFood rnd ?x)" "tileCount ?s1 = tileCount s"
    using gp by simp_all
  have first: "food ?s1 = drawCell rnd (tileCount s) k \<and> \<not> onSnake (snake ?s1) (food ?s1)"
    if "k < 100" and "\<not> onSnake (snake ?s1) (drawCell rnd (tileCount s) k) \<and>
                (\<forall>j<k. onSnake (snake ?s1) (drawCell rnd (tileCount s) j))" for k
  proof -
    have "food (spawnFood rnd ?x) = drawCell rnd (tileCount ?x) k"
      using that by (intro spawnFood_first_free) auto
    then show ?thesis using that by simp
  qed
  have none: "food ?s1 = drawCell rnd (tileCount s) 99 \<and> onSnake (snake ?s1) (food ?s1)"
    if "\<forall>j<100. onSnake (snake ?s1) (drawCell rnd (tileCount s) j)"
  proof -
    have "food (spawnFood rnd ?x) = drawCell rnd (tileCount ?x) 99"
      using that by (intro spawnFood_none_free) auto
    then show ?thesis using that by simp
  qed
  have "next": "\<exists>s2. snakeUpdate now' rnd' ?s1 = Inr s2 \<and>
                 length (snake s2) = length (snake s) + 1 \<and> score s2 = score s + 10"
    if "moveInterval ?s1 \<le> now' - lastMoveTime ?s1 \<and>
           inGrid (tileCount ?s1) (stepHead ?s1) \<and> \<not> onSnake (snake ?s1) (stepHead ?s1) \<and>
           stepHead ?s1 \<noteq> food ?s1" for now' rnd'
  proof -
    have "snakeUpdate now' rnd' ?s1 =
        Inr (?s1\<lparr>lastMoveTime := now', direction := nextDirection ?s1,
           snake := butlast (stepHead ?s1 # snake ?s1)\<rparr>)"
      using that gp by (intro snakeUpdate_move) simp_all
    then show ?thesis by simp
  qed
  show ?thesis
    apply (rule exI [of _ ?s1])
    apply (intro conjI allI impI)
    subgoal by (rule up)
    subgoal by simp
    subgoal by simp
    subgoal by simp
    subgoal using gp by simp
    subgoal for k using first [of k] by blast
    subgoal for k using first [of k] by blast
    subgoal using none by blast
    subgoal using none by blast
    subgoal for now' rnd' using "next" [of now' rnd'] by blast
    done
qed

lemma eatState_draws:
  "drawCell eatDraws (20, 25) 0 = (10, 12)" "drawCell eatDraws (20, 25) 1 = (0, 0)"
  "drawCell eatDraws (20, 25) (Suc 0) = (0, 0)"
  by (simp_all add: drawCell_def eatDraws_def)

theorem snake_eats_food_witness:
  "moveInterval eatState \<le> 200 - lastMoveTime eatState \<and> snake eatState \<noteq> [] \<and>
   inGrid (tileCount eatState) (stepHead eatState) \<and>
   \<not> onSnake (snake eatState) (stepHead eatState) \<and>
   stepHead eatState = food eatState \<and> growPending eatState = 0 \<and>
   (\<exists>s1. snakeUpdate 200 eatDraws eatState = Inr s1 \<and>
      snake s1 = [(11, 12), (10, 12), (9, 12), (8, 12)] \<and> score s1 = 40 \<and>
      food s1 = (0, 0) \<and> \<not> onSnake (snake s1) (food s1) \<and>
      (\<exists>s2. snakeUpdate 400 eatDraws s1 = Inr s2 \<and> length (snake s2) = 4 \<and> score s2 = 40))"
proof -
  have sel: "snake eatState = [(10, 12), (9, 12), (8, 12)]" "tileCount eatState = (20, 25)"
    "food eatState = (11, 12)" "score eatState = 30" "growPending eatState = 0"
    "stepHead eatState = (11, 12)" "nextDirection eatState = (1, 0)"
    by (simp_all add: eatState_def stepHead_def)
  have h: "moveInterval eatState \<le> 200 - lastMoveTime eatState" "snake eatState \<noteq> []"
    "inGrid (tileCount eatState) (stepHead eatState)"
    "\<not> onSnake (snake eatState) (stepHead eatState)"
    "stepHead eatState = food eatState" "growPending eatState = 0"
    unfolding sel by (simp_all add: eatState_def inGrid_def onSnake_def)
  from snake_eats_food [OF h, of eatDraws] obtain s1 where s1:
    "snakeUpdate 200 eatDraws eatState = Inr s1"
    "snake s1 = stepHead eatState # snake eatState" "score s1 = score eatState + 10"
    "growPending s1 = 0"
    "\<forall>k<100. \<not> onSnake (snake s1) (drawCell eatDraws (tileCount eatState) k) \<and>
                (\<forall>j<k. onSnake (snake s1) (drawCell eatDraws (tileCount eatState) j))
          \<longrightarrow> food s1 = drawCell eatDraws (tileCount eatState) k \<and> \<not> onSnake (snake s1) (food s1)"
    "\<forall>now' rnd'. moveInterval s1 \<le> now' - lastMoveTime s1 \<and>
           inGrid (tileCount s1) (stepHead s1) \<and> \<not> onSnake (snake s1) (stepHead s1) \<and>
           stepHead s1 \<noteq> food s1
          \<longrightarrow> (\<exists>s2. snakeUpdate now' rnd' s1 = Inr s2 \<and>
                 length (snake s2) = length (snake eatState) + 1 \<and> score s2 = score eatState + 10)"
    by blast
  have snake1: "snake s1 = [(11, 12), (10, 12), (9, 12), (8, 12)]"
    using s1(2) by (simp add: sel)
  have second: "\<not> onSnake (snake s1) (drawCell eatDraws (tileCount eatState) 1) \<and>
        (\<forall>j<1. onSnake (snake s1) (drawCell eatDraws (tileCount eatState) j))"
    unfolding snake1 sel by (simp add: eatState_draws onSnake_def)
  have "food s1 = drawCell eatDraws (tileCount eatState) 1 \<and> \<not> onSnake (snake s1) (food s1)"
    by (rule s1(5) [rule_format, of 1, OF _ second]) simp
  then have food1: "food s1 = (0, 0)" "\<not> onSnake (snake s1) (food s1)"
    by (auto simp: sel eatState_draws)
  have up: "snakeUpdate 200 eatDraws eatState =
      Inr (eatState\<lparr>lastMoveTime := 200, direction := nextDirection eatState,
           snake := stepHead eatState # snake eatState, score := score eatState + 10,
           food := food (spawnFood eatDraws (eatState\<lparr>snake := stepHead eatState # snake eatState\<rparr>)),
           moveInterval := max 50 (moveInterval eatState - 2)\<rparr>)"
    using h by (rule snakeUpdate_eat)
  have rest: "lastMoveTime s1 = 200" "moveInterval s1 = 118" "tileCount s1 = (20, 25)"
    "nextDirection s1 = (1, 0)"
    using s1(1) unfolding up by (auto simp: eatState_def)
  have "moveInterval s1 \<le> 400 - lastMoveTime s1 \<and>
           inGrid (tileCount s1) (stepHead s1) \<and> \<not> onSnake (snake s1) (stepHead s1) \<and>
           stepHead s1 \<noteq> food s1"
    unfolding stepHead_def rest snake1 food1 by (simp add: inGrid_def onSnake_def)
  with s1(6) obtain s2 where "snakeUpdate 400 eatDraws s1 = Inr s2"
    "length (snake s2) = length (snake eatState) + 1" "score s2 = score eatState + 10"
    by blast
  then have "\<exists>s2. snakeUpdate 400 eatDraws s1 = Inr s2 \<and> length (snake s2) = 4 \<and> score s2 = 40"
    by (simp add: sel)
  with h s1(1) snake1 s1(3) food1 show ?thesis by (simp add: sel)
qed

text \<open>
  The claim as stated (the food always ends on a cell the snake does not occupy) fails:
  on the 20 by 25 grid, with the snake on \<open>(0, 0)\<close> and every draw giving \<open>(0, 0)\<close>, the
  food ends on the snake after the 100 attempts.
\<close>

theorem snake_food_lands_on_snake:
  "moveInterval cornerState \<le> 200 - lastMoveTime cornerState \<and>
   inGrid (tileCount cornerState) (stepHead cornerState) \<and>
   \<not> onSnake (snake cornerState) (stepHead cornerState) \<and>
   stepHead cornerState = food cornerState \<and>
   (\<exists>s1. snakeUpdate 200 (\<lambda>k. 0) cornerState = Inr s1 \<and> food s1 = (0, 0) \<and>
      snake s1 = [(2, 0), (1, 0), (0, 0), (0, 1)] \<and> onSnake (snake s1) (food s1))"
proof -
  have sel: "snake cornerState = [(1, 0), (0, 0), (0, 1)]" "tileCount cornerState = (20, 25)"
    "food cornerState = (2, 0)" "growPending cornerState = 0"
    "stepHead cornerState = (2, 0)"
    by (simp_all add: cornerState_def stepHead_def)
  have h: "moveInterval cornerState \<le> 200 - lastMoveTime cornerState" "snake cornerState \<noteq> []"
    "inGrid (tileCount cornerState) (stepHead cornerState)"
    "\<not> onSnake (snake cornerState) (stepHead cornerState)"
    "stepHead cornerState = food cornerState" "growPending cornerState = 0"
    unfolding sel by (simp_all add: cornerState_def inGrid_def onSnake_def)
  let ?x = "cornerState\<lparr>snake := stepHead cornerState # snake cornerState\<rparr>"
  have up: "snakeUpdate 200 (\<lambda>k. 0) cornerState =
      Inr (cornerState\<lparr>lastMoveTime := 200, direction := nextDirection cornerState,
           snake := stepHead cornerState # snake cornerState, score := score cornerState + 10,
           food := food (spawnFood (\<lambda>k. 0) ?x),
           moveInterval := max 50 (moveInterval cornerState - 2)\<rparr>)"
    using h by (rule snakeUpdate_eat)
  have "food (spawnFood (\<lambda>k. 0) ?x) = drawCell (\<lambda>k. 0) (tileCount ?x) 99"
    by (rule spawnFood_none_free) (simp add: drawCell_def onSnake_def sel)
  then have f: "food (spawnFood (\<lambda>k. 0) ?x) = (0, 0)"
    by (simp add: drawCell_def)
  show ?thesis
    using h unfolding up f by (simp add: sel onSnake_def)
qed

section \<open>Breakout: the paddle bounce\<close>

lemma bounce_angle_bounds:
  assumes "0 \<le> h" and "h \<le> (1::real)"
  shows "- (pi / 2) < (h - 0.5) * pi * 0.7" and "(h - 0.5) * pi * 0.7 < pi / 2"
    and "\<bar>(h - 0.5) * pi * 0.7\<bar> \<le> 0.35 * pi"
proof -
  define t where "t = (h - 0.5) * 0.7"
  define x where "x = pi * t"
  have t: "- 0.35 \<le> t" "t \<le> 0.35" using assms by (simp_all add: t_def)
  have eq: "(h - 0.5) * pi * 0.7 = x" by (simp add: t_def x_def)
  have "pi * (- 0.35) \<le> pi * t" using t(1) by (intro mult_left_mono) simp_all
  then have lo: "- (7 / 20 * pi) \<le> x" by (simp add: x_def)
  have "pi * t \<le> pi * 0.35" using t(2) by (intro mult_left_mono) simp_all
  then have hi: "x \<le> 7 / 20 * pi" by (simp add: x_def)
  have p: "0 < pi" by simp
  show "- (pi / 2) < (h - 0.5) * pi * 0.7" unfolding eq using lo p by linarith
  show "(h - 0.5) * pi * 0.7 < pi / 2" unfolding eq using hi p by linarith
  have "\<bar>x\<bar> \<le> 7 / 20 * pi" using lo hi by linarith
  then show "\<bar>(h - 0.5) * pi * 0.7\<bar> \<le> 0.35 * pi" unfolding eq by simp
qed

lemma bounce_speed:
  fixes a v :: real
  assumes "0 \<le> v"
  shows "sqrt ((sin a * v)\<^sup>2 + (- cos a * v)\<^sup>2) = v"
proof -
  have "(sin a * v)\<^sup>2 + (- cos a * v)\<^sup>2 = (sin a)\<^sup>2 * v\<^sup>2 + (cos a)\<^sup>2 * v\<^sup>2"
    by (simp add: power_mult_distrib)
  also have "\<dots> = ((sin a)\<^sup>2 + (cos a)\<^sup>2) * v\<^sup>2"
    by (simp only: distrib_right)
  also have "\<dots> = v\<^sup>2"
    by (simp only: sin_cos_squared_add mult_1)
  finally show ?thesis using assms by simp
qed

text \<open>
  C3. When the ball moves down (\<open>dy > 0\<close>) and lies in the paddle's band,
  \<^verbatim>\<open>checkPaddleCollision\<close> sends it up (\<open>dy < 0\<close>) at the speed it came with, at an angle
  from the vertical of at most \<open>0.35 \<pi>\<close> (63 degrees); hit at the paddle's exact centre it
  leaves straight up (\<open>dx = 0\<close>). The paddle's width is positive (it is the constant 80).
  Numbers are real numbers here, so the centre bounce is exact.
\<close>

theorem paddle_bounce:
  assumes down: "ballDy (ball s) > 0"
    and band: "ballY (ball s) + ballRadius (ball s) \<ge> paddleY (paddle s)"
      "ballY (ball s) - ballRadius (ball s) \<le> paddleY (paddle s) + paddleHeight (paddle s)"
    and across: "ballX (ball s) \<ge> paddleX (paddle s)"
      "ballX (ball s) \<le> paddleX (paddle s) + paddleWidth (paddle s)"
    and width: "paddleWidth (paddle s) > 0"
  shows "ballDy (ball (checkPaddleCollision s)) < 0 \<and>
         sqrt ((ballDx (ball (checkPaddleCollision s)))\<^sup>2 +
               (ballDy (ball (checkPaddleCollision s)))\<^sup>2)
           = sqrt ((ballDx (ball s))\<^sup>2 + (ballDy (ball s))\<^sup>2) \<and>
         (\<exists>angle. \<bar>angle\<bar> \<le> 0.35 * pi \<and>
            ballDx (ball (checkPaddleCollision s))
              = sin angle * sqrt ((ballDx (ball s))\<^sup>2 + (ballDy (ball s))\<^sup>2) \<and>
            ballDy (ball (checkPaddleCollision s))
              = - cos angle * sqrt ((ballDx (ball s))\<^sup>2 + (ballDy (ball s))\<^sup>2)) \<and>
         (ballX (ball s) = paddleX (paddle s) + paddleWidth (paddle s) / 2 \<longrightarrow>
            ballDx (ball (checkPaddleCollision s)) = 0 \<and>
            ballDy (ball (checkPaddleCollision s))
              = - sqrt ((ballDx (ball s))\<^sup>2 + (ballDy (ball s))\<^sup>2))"
proof -
  define hitPos where "hitPos = (ballX (ball s) - paddleX (paddle s)) / paddleWidth (paddle s)"
  define angle where "angle = (hitPos - 0.5) * pi * 0.7"
  define speed where "speed = sqrt ((ballDx (ball s))\<^sup>2 + (ballDy (ball s))\<^sup>2)"
  have h01: "0 \<le> hitPos" "hitPos \<le> 1"
    using across width by (simp_all add: hitPos_def divide_simps)
  note ab = bounce_angle_bounds [OF h01, folded angle_def]
  have "0 < (ballDy (ball s))\<^sup>2" using down by simp
  then have "0 < (ballDx (ball s))\<^sup>2 + (ballDy (ball s))\<^sup>2"
    by (smt (verit) zero_le_power2)
  then have sp: "0 < speed" by (simp add: speed_def)
  have cp: "0 < cos angle" using ab(1,2) by (rule cos_gt_zero_pi)
  have dx: "ballDx (ball (checkPaddleCollision s)) = sin angle * speed"
    and dy: "ballDy (ball (checkPaddleCollision s)) = - cos angle * speed"
    using assms
    by (simp_all add: checkPaddleCollision_def Let_def hitPos_def angle_def speed_def power2_eq_square)
  have neg: "ballDy (ball (checkPaddleCollision s)) < 0"
    unfolding dy using sp cp by simp
  have keep: "sqrt ((ballDx (ball (checkPaddleCollision s)))\<^sup>2 +
               (ballDy (ball (checkPaddleCollision s)))\<^sup>2) = speed"
    unfolding dx dy using sp by (intro bounce_speed) simp
  have centre: "ballDx (ball (checkPaddleCollision s)) = 0 \<and>
      ballDy (ball (checkPaddleCollision s)) = - speed"
    if "ballX (ball s) = paddleX (paddle s) + paddleWidth (paddle s) / 2"
  proof -
    have "hitPos = 1 / 2" using that width by (simp add: hitPos_def)
    then have "angle = 0" by (simp add: angle_def)
    then show ?thesis unfolding dx dy by simp
  qed
  show ?thesis
    using neg keep ab(3) dx dy centre unfolding speed_def by blast
qed

lemma sqrt_25: "sqrt 25 = 5"
proof -
  have "sqrt ((5::real)\<^sup>2) = \<bar>5\<bar>" by (rule real_sqrt_abs)
  then show ?thesis by simp
qed

theorem paddle_bounce_witness:
  "ballDy (ball bounceState) > 0 \<and>
   ballY (ball bounceState) + ballRadius (ball bounceState) \<ge> paddleY (paddle bounceState) \<and>
   ballY (ball bounceState) - ballRadius (ball bounceState)
      \<le> paddleY (paddle bounceState) + paddleHeight (paddle bounceState) \<and>
   ballX (ball bounceState) \<ge> paddleX (paddle bounceState) \<and>
   ballX (ball bounceState) \<le> paddleX (paddle bounceState) + paddleWidth (paddle bounceState) \<and>
   paddleWidth (paddle bounceState) > 0 \<and>
   ballX (ball bounceState) = paddleX (paddle bounceState) + paddleWidth (paddle bounceState) / 2 \<and>
   ballDx (ball (checkPaddleCollision bounceState)) = 0 \<and>
   ballDy (ball (checkPaddleCollision bounceState)) = - 5"
proof -
  have h: "ballDy (ball bounceState) > 0"
    "ballY (ball bounceState) + ballRadius (ball bounceState) \<ge> paddleY (paddle bounceState)"
    "ballY (ball bounceState) - ballRadius (ball bounceState)
      \<le> paddleY (paddle bounceState) + paddleHeight (paddle bounceState)"
    "ballX (ball bounceState) \<ge> paddleX (paddle bounceState)"
    "ballX (ball bounceState) \<le> paddleX (paddle bounceState) + paddleWidth (paddle bounceState)"
    "paddleWidth (paddle bounceState) > 0"
    by (simp_all add: bounceState_def)
  have c: "ballX (ball bounceState)
      = paddleX (paddle bounceState) + paddleWidth (paddle bounceState) / 2"
    by (simp add: bounceState_def)
  have sp: "sqrt ((ballDx (ball bounceState))\<^sup>2 + (ballDy (ball bounceState))\<^sup>2) = 5"
    using sqrt_25 by (simp add: bounceState_def)
  from paddle_bounce [OF h] c
  have "ballDx (ball (checkPaddleCollision bounceState)) = 0 \<and>
        ballDy (ball (checkPaddleCollision bounceState))
          = - sqrt ((ballDx (ball bounceState))\<^sup>2 + (ballDy (ball bounceState))\<^sup>2)"
    by blast
  with h c show ?thesis unfolding sp by blast
qed

section \<open>Breakout: brick collision\<close>






lemma checkBrickCollision_cases:
  "checkBrickCollision s = s \<and> (\<forall>c<brickColumnCount s. \<forall>r<brickRowCount s. \<not> hits s c r) \<or>
   (\<exists>c r. c < brickColumnCount s \<and> r < brickRowCount s \<and> hits s c r \<and>
      checkBrickCollision s = hitBrick s c r)"
proof (cases "find (\<lambda>(c, r). hits s c r) (brickIndices s)")
  case None
  then have "\<forall>c<brickColumnCount s. \<forall>r<brickRowCount s. \<not> hits s c r"
    by (auto simp: find_None_iff brickIndices_def)
  with None show ?thesis by (simp add: checkBrickCollision_def)
next
  case (Some p)
  obtain c r where p: "p = (c, r)" by (cases p)
  from Some have "p \<in> set (brickIndices s)" "hits s c r"
    unfolding find_Some_iff p by (auto simp: p dest: nth_mem)
  then have "c < brickColumnCount s" "r < brickRowCount s"
    by (auto simp: brickIndices_def p)
  with Some \<open>hits s c r\<close> show ?thesis
    by (auto simp: checkBrickCollision_def p)
qed



















section \<open>Space Invaders: game over within one frame\<close>

lemma shouldDrop_right_edge:
  assumes "a \<in> set (aliens s)" and "alive a"
    and "xpos a + alienSpeed s * alienDirection s + width a \<ge> canvasWidth s"
  shows "shouldDrop s"
  using assms by (auto simp: shouldDrop_def list_ex_iff Let_def)

lemma dropAliens_reached:
  assumes "a \<in> set as" and "alive a" and "ypos a + alienDropAmount + height a \<ge> playerY"
  shows "snd (dropAliens playerY as) = True"
  using assms by (induction as) (auto simp: Let_def split: prod.split)

lemma doubleOver_fields:
  "canvasWidth doubleOverState = 400" "canvasHeight doubleOverState = 500"
  "player doubleOverState = \<lparr>xpos = 360, ypos = 460, width = 40, height = 20, speed = 6\<rparr>"
  "alienDirection doubleOverState = 1" "alienSpeed doubleOverState = 1"
  "alienMoveTimer doubleOverState = 992" "alienMoveInterval doubleOverState = 1000"
  "playerBullets doubleOverState = []"
  "alienBullets doubleOverState = [\<lparr>xpos = 382, ypos = 450, width = 4, height = 12\<rparr>]"
  "keyLeft doubleOverState = False" "keyRight doubleOverState = True"
  "lastFrameTime doubleOverState = 74800" "score doubleOverState = 0"
  "gameOverCalls doubleOverState = []" "wave doubleOverState = 1"
  by (simp_all add: doubleOverState_def createShields_def fleetStart_def Let_def)

lemma doubleOver_aliens:
  assumes "row < 5" and "col < 8"
  shows "\<lparr>xpos = 89 + real col * 40, ypos = 290 + real row * 34, width = 30, height = 24,
          kind = (if row < 1 then 2 else if row < 3 then 1 else 0), alive = True,
          alienPoints = (5 - int row) * 10\<rparr> \<in> set (aliens doubleOverState)"
proof -
  have "(row, col) \<in> set (List.product [0..<alienRows] [0..<alienCols])"
    using assms by (simp add: alienRows_def alienCols_def)
  then have "(\<lambda>(row, col).
       \<lparr>xpos = 89 + real col * 40, ypos = 290 + real row * 34, width = 30, height = 24,
          kind = (if row < 1 then 2 else if row < 3 then 1 else 0), alive = True,
          alienPoints = (5 - int row) * 10\<rparr>) (row, col)
      \<in> (\<lambda>(row, col).
       \<lparr>xpos = 89 + real col * 40, ypos = 290 + real row * 34, width = 30, height = 24,
          kind = (if row < 1 then 2 else if row < 3 then 1 else 0), alive = True,
          alienPoints = (5 - int row) * 10\<rparr>) ` set (List.product [0..<alienRows] [0..<alienCols])"
    by (rule imageI)
  moreover have "aliens doubleOverState = map (\<lambda>(row, col).
       \<lparr>xpos = 89 + real col * 40, ypos = 290 + real row * 34, width = 30, height = 24,
          kind = (if row < 1 then 2 else if row < 3 then 1 else 0), alive = True,
          alienPoints = (5 - int row) * 10\<rparr>) (List.product [0..<alienRows] [0..<alienCols])"
    by (simp add: doubleOverState_def createAliens_def Let_def fleetStart_def split_def
        alienRows_def alienCols_def alienWidth_def alienHeight_def alienPadding_def
        del: set_product)
  ultimately show ?thesis by simp
qed

lemma doubleOver_fleet:
  "\<exists>as1. fleetTick (animate 75000 (movePlayer doubleOverState)) =
     triggerGameOver (doubleOverState\<lparr>alienMoveTimer := 0, aliens := as1\<rparr>)"
proof -
  have idle: "animate 75000 (movePlayer doubleOverState) = doubleOverState"
    by (simp add: animate_def movePlayer_def Let_def doubleOver_fields)
  let ?s = "doubleOverState\<lparr>alienMoveTimer := 0\<rparr>"
  have top: "\<lparr>xpos = 369, ypos = 290, width = 30, height = 24, kind = 2, alive = True,
          alienPoints = 50\<rparr> \<in> set (aliens ?s)"
    using doubleOver_aliens [of 0 7] by simp
  have bottom: "\<lparr>xpos = 89, ypos = 426, width = 30, height = 24, kind = 0, alive = True,
          alienPoints = 10\<rparr> \<in> set (aliens ?s)"
    using doubleOver_aliens [of 4 0] by simp
  have edge: "shouldDrop ?s"
    by (rule shouldDrop_right_edge [OF top]) (simp_all add: doubleOver_fields)
  have reach: "snd (dropAliens (ypos (player ?s)) (aliens ?s)) = True"
    by (rule dropAliens_reached [OF bottom])
      (simp_all add: doubleOver_fields alienDropAmount_def)
  obtain as1 where d: "dropAliens (ypos (player ?s)) (aliens ?s) = (as1, True)"
    using reach by (cases "dropAliens (ypos (player ?s)) (aliens ?s)") auto
  have "moveAliens ?s = triggerGameOver (?s\<lparr>aliens := as1\<rparr>)"
    using edge d by (simp add: moveAliens_def)
  then have "fleetTick doubleOverState = triggerGameOver (?s\<lparr>aliens := as1\<rparr>)"
    by (simp add: fleetTick_def Let_def doubleOver_fields)
  then show ?thesis unfolding idle by blast
qed

text \<open>
  C1. The claim is that the controller is told of the end of a run exactly once, even
  when several game-ending conditions are met in one frame. In this frame the fleet drops
  onto the player's row (\<^verbatim>\<open>moveAliens\<close> triggers game over and returns, but only out of
  \<^verbatim>\<open>moveAliens\<close>) and \<^verbatim>\<open>update\<close> goes on to \<^verbatim>\<open>updateAlienBullets\<close>, where a bullet hits
  the player and triggers game over again: \<^verbatim>\<open>controller.gameOver\<close> is called twice, each
  time with the score 0.
\<close>

theorem invaders_game_over_twice:
  "gameOverCalls doubleOverState = [] \<and>
   gameOverCalls (invadersUpdate 75000 (1 / 2) 0 doubleOverState) = [0, 0] \<and>
   isRunning (invadersUpdate 75000 (1 / 2) 0 doubleOverState) = False"
proof -
  from doubleOver_fleet obtain as1 where f:
    "fleetTick (animate 75000 (movePlayer doubleOverState)) =
       triggerGameOver (doubleOverState\<lparr>alienMoveTimer := 0, aliens := as1\<rparr>)"
    by blast
  define s3 where "s3 = triggerGameOver (doubleOverState\<lparr>alienMoveTimer := 0, aliens := as1\<rparr>)"
  have s3: "gameOverCalls s3 = [0]" "playerBullets s3 = []"
    "alienBullets s3 = [\<lparr>xpos = 382, ypos = 450, width = 4, height = 12\<rparr>]"
    "player s3 = \<lparr>xpos = 360, ypos = 460, width = 40, height = 20, speed = 6\<rparr>"
    "canvasHeight s3 = 500" "score s3 = 0"
    by (simp_all add: s3_def triggerGameOver_def stop_def Let_def doubleOver_fields)
  define s6 where "s6 = updateAlienBullets (updatePlayerBullets s3)"
  have p: "updatePlayerBullets s3 = s3"
    by (simp add: updatePlayerBullets_def s3)
  have s6: "gameOverCalls s6 = [0, 0]" "isRunning s6 = False"
    unfolding s6_def p
    by (simp_all add: updateAlienBullets_def s3 Let_def alienBulletSpeed_def checkCollision2_def
        triggerGameOver_def stop_def)
  have b: "beforeWinCheck 75000 (1 / 2) 0 doubleOverState = s6"
    by (simp add: beforeWinCheck_def Let_def f s6_def s3_def)
  have w: "gameOverCalls (nextWave s6) = gameOverCalls s6" "isRunning (nextWave s6) = isRunning s6"
    by (simp_all add: nextWave_def Let_def createAliens_def addScore_def)
  show ?thesis
    using s6 w by (simp add: invadersUpdate_def Let_def b doubleOver_fields)
qed

section \<open>Space Invaders: the next wave\<close>

lemma createAliens_fleet:
  "length (aliens (createAliens s)) = alienRows * alienCols"
  "list_all alive (aliens (createAliens s))"
  "row < alienRows \<Longrightarrow> col < alienCols \<Longrightarrow>
     aliens (createAliens s) ! (row * alienCols + col) =
       \<lparr>xpos = (canvasWidth s - real alienCols * (alienWidth + alienPadding)) / 2
                 + real col * (alienWidth + alienPadding),
        ypos = 50 + real row * (alienHeight + alienPadding),
        width = alienWidth, height = alienHeight,
        kind = (if row < 1 then 2 else if row < 3 then 1 else 0),
        alive = True,
        alienPoints = (int alienRows - int row) * 10\<rparr>"
proof -
  show "length (aliens (createAliens s)) = alienRows * alienCols"
    by (simp add: createAliens_def Let_def)
  show "list_all alive (aliens (createAliens s))"
    by (simp add: createAliens_def Let_def list_all_iff split_def)
  assume rc: "row < alienRows" "col < alienCols"
  have "row * alienCols + col < row * alienCols + alienCols" using rc by simp
  also have "\<dots> = (row + 1) * alienCols" by simp
  also have "\<dots> \<le> alienRows * alienCols" using rc by (intro mult_le_mono1) simp
  finally have lt: "row * alienCols + col < alienRows * alienCols" .
  have nth: "List.product [0..<alienRows] [0..<alienCols] ! (row * alienCols + col) = (row, col)"
    using lt rc by (simp add: product_nth less_mult_imp_div_less)
  show "aliens (createAliens s) ! (row * alienCols + col) =
       \<lparr>xpos = (canvasWidth s - real alienCols * (alienWidth + alienPadding)) / 2
                 + real col * (alienWidth + alienPadding),
        ypos = 50 + real row * (alienHeight + alienPadding),
        width = alienWidth, height = alienHeight,
        kind = (if row < 1 then 2 else if row < 3 then 1 else 0),
        alive = True,
        alienPoints = (int alienRows - int row) * 10\<rparr>"
    using lt by (simp add: createAliens_def Let_def nth)
qed

lemma triggerGameOver_canvasWidth: "canvasWidth (triggerGameOver g) = canvasWidth g"
  by (simp add: triggerGameOver_def stop_def Let_def)

lemma moveAliens_canvasWidth: "canvasWidth (moveAliens s) = canvasWidth s"
  by (simp add: moveAliens_def triggerGameOver_canvasWidth split: prod.split)

lemma fleetTick_canvasWidth: "canvasWidth (fleetTick s) = canvasWidth s"
  by (simp add: fleetTick_def Let_def moveAliens_canvasWidth)

lemma alienShoot_canvasWidth: "canvasWidth (alienShoot rnd s) = canvasWidth s"
  by (simp add: alienShoot_def Let_def)

lemma shieldCheckPlayer_canvasWidth: "canvasWidth (shieldCheckPlayer b i s) = canvasWidth s"
  by (simp add: shieldCheckPlayer_def split: option.split)

lemma shieldCheckAlien_canvasWidth: "canvasWidth (shieldCheckAlien b i s) = canvasWidth s"
  by (simp add: shieldCheckAlien_def split: option.split)

lemma playerBulletStep_canvasWidth: "canvasWidth (playerBulletStep i s) = canvasWidth s"
  by (simp add: playerBulletStep_def Let_def shieldCheckPlayer_canvasWidth addScore_def
      split: prod.split option.split)

lemma playerBulletLoop_canvasWidth: "canvasWidth (playerBulletLoop i s) = canvasWidth s"
  by (induction i arbitrary: s) (simp_all add: playerBulletStep_canvasWidth)

lemma alienBulletLoop_canvasWidth: "canvasWidth (alienBulletLoop i s) = canvasWidth s"
  by (induction i arbitrary: s)
    (simp_all add: Let_def triggerGameOver_canvasWidth shieldCheckAlien_canvasWidth)

lemma beforeWinCheck_canvasWidth: "canvasWidth (beforeWinCheck now rnd1 rnd2 s) = canvasWidth s"
  by (simp add: beforeWinCheck_def Let_def updateAlienBullets_def updatePlayerBullets_def
      alienBulletLoop_canvasWidth playerBulletLoop_canvasWidth alienShoot_canvasWidth
      fleetTick_canvasWidth animate_def movePlayer_def)

lemma shootAlien_shape:
  "length (fst (shootAlien b as)) = length as"
  "snd (shootAlien b as) = None \<Longrightarrow> fst (shootAlien b as) = as"
  by (induction as) (auto simp: Let_def split: prod.splits if_splits)

lemma dropAliens_alive: "map alive (fst (dropAliens py as)) = map alive as"
  by (induction as) (auto simp: Let_def split: prod.splits if_splits)

lemma dead_iff: "list_all (\<lambda>a. \<not> alive a) as \<longleftrightarrow> (\<forall>b \<in> set (map alive as). \<not> b)"
  by (auto simp: list_all_iff)

lemma moveAliens_track:
  "map alive (aliens (moveAliens s)) = map alive (aliens s)"
  "alienMoveInterval (moveAliens s) = alienMoveInterval s"
  "isRunning (moveAliens s) \<Longrightarrow> isRunning s \<and> gameOverCalls (moveAliens s) = gameOverCalls s"
proof -
  obtain as1 reached where d: "dropAliens (ypos (player s)) (aliens s) = (as1, reached)"
    by (cases "dropAliens (ypos (player s)) (aliens s)")
  have a: "map alive as1 = map alive (aliens s)"
    using dropAliens_alive [of "ypos (player s)" "aliens s"] d by simp
  have m: "map alive (map (\<lambda>a. if alive a then a\<lparr>xpos := xpos a + v\<rparr> else a) as) = map alive as"
    for v and as :: "alien list"
    by (induction as) simp_all
  show "map alive (aliens (moveAliens s)) = map alive (aliens s)"
    using a m by (simp add: moveAliens_def d triggerGameOver_def stop_def Let_def)
  show "alienMoveInterval (moveAliens s) = alienMoveInterval s"
    by (simp add: moveAliens_def d triggerGameOver_def stop_def Let_def)
  show "isRunning (moveAliens s) \<Longrightarrow> isRunning s \<and> gameOverCalls (moveAliens s) = gameOverCalls s"
    by (simp add: moveAliens_def d triggerGameOver_def stop_def Let_def split: if_splits)
qed

lemma fleetTick_track:
  "map alive (aliens (fleetTick s)) = map alive (aliens s)"
  "alienMoveInterval (fleetTick s) = alienMoveInterval s"
  "isRunning (fleetTick s) \<Longrightarrow> isRunning s \<and> gameOverCalls (fleetTick s) = gameOverCalls s"
proof -
  let ?s1 = "s\<lparr>alienMoveTimer := alienMoveTimer s + 16\<rparr>"
  have e: "fleetTick s = moveAliens (?s1\<lparr>alienMoveTimer := 0\<rparr>) \<or> fleetTick s = ?s1"
    by (simp add: fleetTick_def Let_def)
  show "map alive (aliens (fleetTick s)) = map alive (aliens s)"
    using e moveAliens_track(1) [of "?s1\<lparr>alienMoveTimer := 0\<rparr>"] by auto
  show "alienMoveInterval (fleetTick s) = alienMoveInterval s"
    using e moveAliens_track(2) [of "?s1\<lparr>alienMoveTimer := 0\<rparr>"] by auto
  show "isRunning (fleetTick s) \<Longrightarrow> isRunning s \<and> gameOverCalls (fleetTick s) = gameOverCalls s"
    using e moveAliens_track(3) [of "?s1\<lparr>alienMoveTimer := 0\<rparr>"] by auto
qed

lemma playerBulletStep_track:
  "length (aliens (playerBulletStep i s)) = length (aliens s)"
  "lastKillInterval s \<Longrightarrow> lastKillInterval (playerBulletStep i s)"
  "isRunning (playerBulletStep i s) = isRunning s"
  "gameOverCalls (playerBulletStep i s) = gameOverCalls s"
proof -
  define bullet where "bullet = (playerBullets s ! i)\<lparr>ypos := ypos (playerBullets s ! i) - bulletSpeed\<rparr>"
  define s1 where "s1 = s\<lparr>playerBullets := (playerBullets s)[i := bullet]\<rparr>"
  have f1: "aliens s1 = aliens s" "isRunning s1 = isRunning s"
    "gameOverCalls s1 = gameOverCalls s" "alienMoveInterval s1 = alienMoveInterval s"
    by (simp_all add: s1_def)
  obtain as1 r where sa: "shootAlien bullet (aliens s) = (as1, r)"
    by (cases "shootAlien bullet (aliens s)")
  have len: "length as1 = length (aliens s)"
    using shootAlien_shape(1) [of bullet "aliens s"] sa by simp
  have same: "as1 = aliens s" if "r = None"
    using shootAlien_shape(2) [of bullet "aliens s"] sa that by simp
  define s2 where "s2 = (case shootAlien bullet (aliens s1) of
                           (as1, None) \<Rightarrow> s1
                         | (as1, Some a) \<Rightarrow>
                             (let s3 = s1\<lparr>aliens := as1,
                                          playerBullets := splice1 i (playerBullets s1)\<rparr>;
                                  s4 = addScore (alienPoints a) s3;
                                  aliveCount = int (length (filter alive (aliens s4)))
                              in s4\<lparr>alienMoveInterval :=
                                      max 100 (1000 - (int (length (aliens s4)) - aliveCount) * 20)\<rparr>))"
  have step: "playerBulletStep i s =
      (if ypos bullet + height bullet < 0
       then s1\<lparr>playerBullets := splice1 i (playerBullets s1)\<rparr>
       else shieldCheckPlayer bullet i s2)"
    unfolding playerBulletStep_def Let_def s2_def s1_def bullet_def by simp
  have sc: "aliens (shieldCheckPlayer b j t) = aliens t"
    "alienMoveInterval (shieldCheckPlayer b j t) = alienMoveInterval t"
    "isRunning (shieldCheckPlayer b j t) = isRunning t"
    "gameOverCalls (shieldCheckPlayer b j t) = gameOverCalls t" for b j t
    by (simp_all add: shieldCheckPlayer_def split: option.split)
  have s2_none: "s2 = s1" if "r = None"
    using that by (simp add: s2_def f1 sa)
  have s2_some: "s2 = (addScore (alienPoints a)
        (s1\<lparr>aliens := as1, playerBullets := splice1 i (playerBullets s1)\<rparr>))
      \<lparr>alienMoveInterval := max 100 (1000 - (int (length as1) - int (length (filter alive as1))) * 20)\<rparr>"
    if "r = Some a" for a
    using that by (simp add: s2_def f1 sa Let_def addScore_def)
  have s2_base: "isRunning s2 = isRunning s \<and> gameOverCalls s2 = gameOverCalls s \<and>
    length (aliens s2) = length (aliens s)"
  proof (cases r)
    case None
    then show ?thesis by (simp add: s2_none f1)
  next
    case (Some a)
    then show ?thesis using len by (simp add: s2_some f1 addScore_def)
  qed
  have s2_kill: "lastKillInterval s2" if "lastKillInterval s"
  proof (cases r)
    case None
    then show ?thesis using that by (simp add: s2_none f1 lastKillInterval_def)
  next
    case (Some a)
    have "filter alive as1 = []" if "list_all (\<lambda>a. \<not> alive a) as1"
      using that by (simp add: filter_empty_conv list_all_iff)
    then show ?thesis
      using Some by (simp add: s2_some addScore_def lastKillInterval_def)
  qed
  show "length (aliens (playerBulletStep i s)) = length (aliens s)"
    unfolding step using s2_base by (simp add: sc f1)
  show "lastKillInterval s \<Longrightarrow> lastKillInterval (playerBulletStep i s)"
    unfolding step using s2_kill by (simp add: lastKillInterval_def sc f1)
  show "isRunning (playerBulletStep i s) = isRunning s"
    unfolding step using s2_base by (simp add: sc f1)
  show "gameOverCalls (playerBulletStep i s) = gameOverCalls s"
    unfolding step using s2_base by (simp add: sc f1)
qed

lemma playerBulletLoop_track:
  "length (aliens (playerBulletLoop i s)) = length (aliens s)"
  "lastKillInterval s \<Longrightarrow> lastKillInterval (playerBulletLoop i s)"
  "isRunning (playerBulletLoop i s) = isRunning s"
  "gameOverCalls (playerBulletLoop i s) = gameOverCalls s"
  by (induction i arbitrary: s) (simp_all add: playerBulletStep_track)

lemma alienBulletLoop_track:
  "aliens (alienBulletLoop i s) = aliens s"
  "alienMoveInterval (alienBulletLoop i s) = alienMoveInterval s"
  "isRunning (alienBulletLoop i s) \<Longrightarrow>
     isRunning s \<and> gameOverCalls (alienBulletLoop i s) = gameOverCalls s"
proof -
  have sc: "aliens (shieldCheckAlien b j t) = aliens t"
    "alienMoveInterval (shieldCheckAlien b j t) = alienMoveInterval t"
    "isRunning (shieldCheckAlien b j t) = isRunning t"
    "gameOverCalls (shieldCheckAlien b j t) = gameOverCalls t" for b j t
    by (simp_all add: shieldCheckAlien_def split: option.split)
  show "aliens (alienBulletLoop i s) = aliens s"
    by (induction i arbitrary: s) (simp_all add: Let_def sc triggerGameOver_def stop_def)
  show "alienMoveInterval (alienBulletLoop i s) = alienMoveInterval s"
    by (induction i arbitrary: s) (simp_all add: Let_def sc triggerGameOver_def stop_def)
  show "isRunning (alienBulletLoop i s) \<Longrightarrow>
     isRunning s \<and> gameOverCalls (alienBulletLoop i s) = gameOverCalls s"
  proof (induction i arbitrary: s)
    case 0
    then show ?case by simp
  next
    case (Suc i)
    define bullet where "bullet = (alienBullets s ! i)\<lparr>ypos := ypos (alienBullets s ! i) + alienBulletSpeed\<rparr>"
    define s1 where "s1 = s\<lparr>alienBullets := (alienBullets s)[i := bullet]\<rparr>"
    have e: "alienBulletLoop (Suc i) s =
        (if ypos bullet > canvasHeight s1
         then alienBulletLoop i (s1\<lparr>alienBullets := splice1 i (alienBullets s1)\<rparr>)
         else if checkCollision2 bullet (player s1) then triggerGameOver s1
         else alienBulletLoop i (shieldCheckAlien bullet i s1))"
      by (simp add: Let_def s1_def bullet_def)
    show ?case
    proof (cases "ypos bullet > canvasHeight s1")
      case True
      then show ?thesis
        using Suc.prems Suc.IH [of "s1\<lparr>alienBullets := splice1 i (alienBullets s1)\<rparr>"]
        unfolding e by (simp add: s1_def)
    next
      case False
      show ?thesis
      proof (cases "checkCollision2 bullet (player s1)")
        case True
        then show ?thesis
          using Suc.prems False unfolding e by (simp add: triggerGameOver_def stop_def Let_def)
      next
        case no: False
        then show ?thesis
          using Suc.prems False Suc.IH [of "shieldCheckAlien bullet i s1"]
          unfolding e by (simp add: sc s1_def)
      qed
    qed
  qed
qed

lemma beforeWinCheck_track:
  "length (aliens (beforeWinCheck now rnd1 rnd2 s)) = length (aliens s)"
  "\<not> list_all (\<lambda>a. \<not> alive a) (aliens s) \<Longrightarrow> lastKillInterval (beforeWinCheck now rnd1 rnd2 s)"
  "isRunning (beforeWinCheck now rnd1 rnd2 s) \<Longrightarrow>
     isRunning s \<and> gameOverCalls (beforeWinCheck now rnd1 rnd2 s) = gameOverCalls s"
proof -
  define s3 where "s3 = fleetTick (animate now (movePlayer s))"
  define s4 where "s4 = (if rnd1 < 0.02 then alienShoot rnd2 s3 else s3)"
  have s2: "aliens (animate now (movePlayer s)) = aliens s"
    "alienMoveInterval (animate now (movePlayer s)) = alienMoveInterval s"
    "isRunning (animate now (movePlayer s)) = isRunning s"
    "gameOverCalls (animate now (movePlayer s)) = gameOverCalls s"
    by (simp_all add: animate_def movePlayer_def Let_def)
  have sh: "aliens (alienShoot rnd2 s3) = aliens s3"
    "alienMoveInterval (alienShoot rnd2 s3) = alienMoveInterval s3"
    "isRunning (alienShoot rnd2 s3) = isRunning s3"
    "gameOverCalls (alienShoot rnd2 s3) = gameOverCalls s3"
    by (simp_all add: alienShoot_def Let_def)
  have s43: "aliens s4 = aliens s3" "alienMoveInterval s4 = alienMoveInterval s3"
    "isRunning s4 = isRunning s3" "gameOverCalls s4 = gameOverCalls s3"
    unfolding s4_def using sh by simp_all
  have t4: "map alive (aliens s4) = map alive (aliens s)"
    "alienMoveInterval s4 = alienMoveInterval s"
    "isRunning s4 \<Longrightarrow> isRunning s \<and> gameOverCalls s4 = gameOverCalls s"
    unfolding s43 s3_def
    using fleetTick_track [of "animate now (movePlayer s)"] by (simp_all add: s2)
  have b: "beforeWinCheck now rnd1 rnd2 s
      = alienBulletLoop (length (alienBullets (playerBulletLoop (length (playerBullets s4)) s4)))
          (playerBulletLoop (length (playerBullets s4)) s4)"
    by (simp add: beforeWinCheck_def Let_def s4_def s3_def updatePlayerBullets_def
        updateAlienBullets_def)
  have l4: "length (aliens s4) = length (aliens s)"
    using arg_cong [OF t4(1), of length] by simp
  show "length (aliens (beforeWinCheck now rnd1 rnd2 s)) = length (aliens s)"
    unfolding b by (simp add: alienBulletLoop_track playerBulletLoop_track l4)
  show "lastKillInterval (beforeWinCheck now rnd1 rnd2 s)"
    if "\<not> list_all (\<lambda>a. \<not> alive a) (aliens s)"
  proof -
    have "\<not> list_all (\<lambda>a. \<not> alive a) (aliens s4)"
      using that unfolding dead_iff t4(1) .
    then have "lastKillInterval s4" by (simp add: lastKillInterval_def)
    then have "lastKillInterval (playerBulletLoop (length (playerBullets s4)) s4)"
      by (rule playerBulletLoop_track(2))
    then show ?thesis
      unfolding b by (simp add: lastKillInterval_def alienBulletLoop_track)
  qed
  show "isRunning s \<and> gameOverCalls (beforeWinCheck now rnd1 rnd2 s) = gameOverCalls s"
    if "isRunning (beforeWinCheck now rnd1 rnd2 s)"
  proof -
    let ?p = "playerBulletLoop (length (playerBullets s4)) s4"
    have 1: "isRunning ?p \<and> gameOverCalls (beforeWinCheck now rnd1 rnd2 s) = gameOverCalls ?p"
      using that alienBulletLoop_track(3) [of "length (alienBullets ?p)" ?p] unfolding b by simp
    then have "isRunning s4" by (simp add: playerBulletLoop_track)
    then show ?thesis using t4(3) 1 by (simp add: playerBulletLoop_track)
  qed
qed

text \<open>
  C4, as the code has it. When the last living alien is destroyed in a frame that does not
  end the game, \<^verbatim>\<open>update\<close> finishes with \<^verbatim>\<open>nextWave\<close>: a new fleet of 5 rows of 8 aliens, all
  alive, at the start positions; the wave number one higher; the fleet speed higher by 0.5;
  the move interval \<open>max 200 (1000 - 100 * wave)\<close> for the new wave number, which is at least
  200 and so not shorter than the interval in force when the fleet was cleared (200 after
  the last kill in a fleet of 40); all bullets removed; and \<open>100 * wave\<close> added to the score.
  The shields are left as they are: \<^verbatim>\<open>nextWave\<close> does not rebuild them. The game is still
  running and no game over was reported in the frame.
\<close>

theorem invaders_next_wave:
  assumes dead: "list_all (\<lambda>a. \<not> alive a) (aliens (beforeWinCheck now rnd1 rnd2 s))"
    and running: "isRunning (beforeWinCheck now rnd1 rnd2 s)"
  shows "invadersUpdate now rnd1 rnd2 s = nextWave (beforeWinCheck now rnd1 rnd2 s) \<and>
    length (aliens (invadersUpdate now rnd1 rnd2 s)) = 5 * 8 \<and>
    list_all alive (aliens (invadersUpdate now rnd1 rnd2 s)) \<and>
    (\<forall>row<5. \<forall>col<8. aliens (invadersUpdate now rnd1 rnd2 s) ! (row * 8 + col) =
       \<lparr>xpos = (canvasWidth s - 320) / 2 + real col * 40,
        ypos = 50 + real row * 34, width = 30, height = 24,
        kind = (if row < 1 then 2 else if row < 3 then 1 else 0),
        alive = True, alienPoints = (5 - int row) * 10\<rparr>) \<and>
    wave (invadersUpdate now rnd1 rnd2 s) = wave (beforeWinCheck now rnd1 rnd2 s) + 1 \<and>
    alienSpeed (invadersUpdate now rnd1 rnd2 s)
      = alienSpeed (beforeWinCheck now rnd1 rnd2 s) + 1 / 2 \<and>
    alienMoveInterval (invadersUpdate now rnd1 rnd2 s)
      = max 200 (1000 - wave (invadersUpdate now rnd1 rnd2 s) * 100) \<and>
    200 \<le> alienMoveInterval (invadersUpdate now rnd1 rnd2 s) \<and>
    (length (aliens s) = 5 * 8 \<and> \<not> list_all (\<lambda>a. \<not> alive a) (aliens s) \<longrightarrow>
       alienMoveInterval (beforeWinCheck now rnd1 rnd2 s) = 200 \<and>
       alienMoveInterval (beforeWinCheck now rnd1 rnd2 s)
         \<le> alienMoveInterval (invadersUpdate now rnd1 rnd2 s)) \<and>
    score (invadersUpdate now rnd1 rnd2 s)
      = score (beforeWinCheck now rnd1 rnd2 s) + 100 * wave (invadersUpdate now rnd1 rnd2 s) \<and>
    playerBullets (invadersUpdate now rnd1 rnd2 s) = [] \<and>
    alienBullets (invadersUpdate now rnd1 rnd2 s) = [] \<and>
    shields (invadersUpdate now rnd1 rnd2 s) = shields (beforeWinCheck now rnd1 rnd2 s) \<and>
    isRunning (invadersUpdate now rnd1 rnd2 s) \<and>
    gameOverCalls (invadersUpdate now rnd1 rnd2 s) = gameOverCalls s"
proof -
  define t where "t = beforeWinCheck now rnd1 rnd2 s"
  have up: "invadersUpdate now rnd1 rnd2 s = nextWave t"
    using dead by (simp add: invadersUpdate_def Let_def t_def)
  define u where "u = t\<lparr>wave := wave t + 1, alienSpeed := alienSpeed t + 0.5,
      alienMoveInterval := max 200 (1000 - (wave t + 1) * 100)\<rparr>"
  have nw: "nextWave t = addScore (100 * (wave t + 1))
      ((createAliens u)\<lparr>playerBullets := [], alienBullets := []\<rparr>)"
    by (simp add: nextWave_def Let_def u_def createAliens_def)
  have al: "aliens (nextWave t) = aliens (createAliens u)"
    unfolding nw by (simp add: addScore_def)
  have cw: "canvasWidth u = canvasWidth s"
    by (simp add: u_def t_def beforeWinCheck_canvasWidth)
  have grid: "aliens (nextWave t) ! (row * 8 + col) =
       \<lparr>xpos = (canvasWidth s - 320) / 2 + real col * 40,
        ypos = 50 + real row * 34, width = 30, height = 24,
        kind = (if row < 1 then 2 else if row < 3 then 1 else 0),
        alive = True, alienPoints = (5 - int row) * 10\<rparr>" if "row < 5" "col < 8" for row col
    unfolding al using createAliens_fleet(3) [of row col u] that
    by (simp add: alienRows_def alienCols_def alienWidth_def alienHeight_def alienPadding_def cw)
  have len: "length (aliens (nextWave t)) = 5 * 8"
    unfolding al by (simp add: createAliens_fleet(1) alienRows_def alienCols_def)
  have alv: "list_all alive (aliens (nextWave t))"
    unfolding al by (rule createAliens_fleet(2))
  have rest: "wave (nextWave t) = wave t + 1" "alienSpeed (nextWave t) = alienSpeed t + 1 / 2"
    "alienMoveInterval (nextWave t) = max 200 (1000 - (wave t + 1) * 100)"
    "200 \<le> alienMoveInterval (nextWave t)"
    "score (nextWave t) = score t + 100 * (wave t + 1)"
    "playerBullets (nextWave t) = []" "alienBullets (nextWave t) = []"
    "shields (nextWave t) = shields t"
    "isRunning (nextWave t) = isRunning t" "gameOverCalls (nextWave t) = gameOverCalls t"
    unfolding nw by (simp_all add: addScore_def createAliens_def Let_def u_def)
  have run: "isRunning t" "gameOverCalls t = gameOverCalls s"
    using beforeWinCheck_track(3) [OF running] running by (simp_all add: t_def)
  have last: "alienMoveInterval t = 200 \<and> alienMoveInterval t \<le> alienMoveInterval (nextWave t)"
    if "length (aliens s) = 5 * 8 \<and> \<not> list_all (\<lambda>a. \<not> alive a) (aliens s)"
  proof -
    have "lastKillInterval t"
      unfolding t_def using that by (intro beforeWinCheck_track(2)) simp
    moreover have "length (aliens t) = 40"
      unfolding t_def using that by (simp add: beforeWinCheck_track(1))
    ultimately have "alienMoveInterval t = 200"
      using dead by (simp add: lastKillInterval_def t_def)
    then show ?thesis using rest(4) by simp
  qed
  show ?thesis
    unfolding up t_def [symmetric] using grid len alv rest run last by simp
qed

lemma shieldBlocks_nonempty: "shieldBlocks x y \<noteq> []"
proof -
  let ?keep = "\<lambda>(y :: nat, x :: nat). \<not> (real y \<ge> 35 / 5 - 2 \<and> real x \<ge> 50 / 2 / 5 - 2 \<and>
                              real x \<le> 50 / 2 / 5 + 1)"
  have "(0, 0) \<in> set (List.product [0..<7] [0..<10])" by simp
  moreover have "?keep (0, 0)" by simp
  ultimately have "(0, 0) \<in> set (filter ?keep (List.product [0..<7] [0..<10]))"
    by (simp only: set_filter mem_Collect_eq simp_thms)
  then have "filter ?keep (List.product [0..<7] [0..<10]) \<noteq> []"
    by (rule contrapos_pn) simp
  then show ?thesis unfolding shieldBlocks_def by (simp only: map_is_Nil_conv not_False_eq_True)
qed

lemma shieldBlocks_below:
  assumes "k \<in> set (shieldBlocks x y)"
  shows "y \<le> ypos k"
  using assms by (auto simp: shieldBlocks_def)

lemma damageFirst_none:
  assumes "\<forall>k \<in> set ks. \<not> checkCollision2 b k"
  shows "damageFirst b ks = None"
  using assms by (induction ks) simp_all

lemma damageShields_none:
  assumes "\<forall>sh \<in> set shs. \<forall>k \<in> set sh. \<not> checkCollision2 b k"
  shows "damageShields b shs = None"
  using assms
proof (induction shs)
  case Nil
  then show ?case by simp
next
  case (Cons sh shs)
  have "damageFirst b (rev sh) = None"
    using Cons.prems by (intro damageFirst_none) simp
  then have "damageBlocks b sh = None" by (simp add: damageBlocks_def)
  moreover have "damageShields b shs = None" using Cons by simp
  ultimately show ?case by simp
qed

lemma lastAlien_fields:
  "canvasWidth lastAlienState = 400" "canvasHeight lastAlienState = 500"
  "player lastAlienState = \<lparr>xpos = 90, ypos = 460, width = 40, height = 20, speed = 6\<rparr>"
  "alienMoveTimer lastAlienState = 96" "alienMoveInterval lastAlienState = 220"
  "playerBullets lastAlienState = [\<lparr>xpos = 108, ypos = 76, width = 4, height = 12\<rparr>]"
  "alienBullets lastAlienState = []"
  "keyLeft lastAlienState = False" "keyRight lastAlienState = False"
  "lastFrameTime lastAlienState = 74800" "score lastAlienState = 1150"
  "wave lastAlienState = 1" "alienSpeed lastAlienState = 1"
  "aliens lastAlienState =
     \<lparr>xpos = 89, ypos = 50, width = 30, height = 24, kind = 2, alive = True, alienPoints = 50\<rparr>
     # map (\<lambda>a. a\<lparr>xpos := xpos a + 49, alive := False\<rparr>) (tl (aliens (createAliens fleetStart)))"
  "shields lastAlienState = (shields (createShields fleetStart))
                      [0 := tl (shields (createShields fleetStart) ! 0)]"
  "isRunning lastAlienState" "gameOverCalls lastAlienState = []"
  by (simp_all add: lastAlienState_def fleetStart_def)

lemma lastAlien_shields_far:
  assumes "sh \<in> set (shields lastAlienState)" and "k \<in> set sh"
  shows "400 \<le> ypos k"
proof -
  let ?full = "shields (createShields fleetStart)"
  have full: "\<exists>x. sh' = shieldBlocks x 400" if "sh' \<in> set ?full" for sh'
    using that by (auto simp: createShields_def Let_def fleetStart_def)
  have "sh \<in> insert (tl (?full ! 0)) (set ?full)"
    using assms(1) set_update_subset_insert [of ?full 0 "tl (?full ! 0)"]
    by (auto simp: lastAlien_fields)
  moreover have "?full ! 0 \<in> set ?full"
    by (intro nth_mem) (simp add: createShields_def Let_def)
  ultimately have "\<exists>sh' \<in> set ?full. set sh \<subseteq> set sh'"
    by (metis insertE list.set_sel(2) order_refl subsetI tl_Nil)
  then obtain x where "k \<in> set (shieldBlocks x 400)"
    using assms(2) full by blast
  then show ?thesis by (rule shieldBlocks_below)
qed

lemma lastAlien_before:
  "list_all (\<lambda>a. \<not> alive a) (aliens (beforeWinCheck 75000 (1 / 2) 0 lastAlienState))"
  "score (beforeWinCheck 75000 (1 / 2) 0 lastAlienState) = 1200"
  "wave (beforeWinCheck 75000 (1 / 2) 0 lastAlienState) = 1"
  "alienSpeed (beforeWinCheck 75000 (1 / 2) 0 lastAlienState) = 1"
  "alienMoveInterval (beforeWinCheck 75000 (1 / 2) 0 lastAlienState) = 200"
  "shields (beforeWinCheck 75000 (1 / 2) 0 lastAlienState) = shields lastAlienState"
  "isRunning (beforeWinCheck 75000 (1 / 2) 0 lastAlienState)"
  "gameOverCalls (beforeWinCheck 75000 (1 / 2) 0 lastAlienState) = []"
proof -
  define bullet :: rect where "bullet = \<lparr>xpos = 108, ypos = 68, width = 4, height = 12\<rparr>"
  define s4 where "s4 = lastAlienState\<lparr>alienMoveTimer := 112\<rparr>"
  have pre: "(if (1 / 2 :: real) < 0.02 then alienShoot 0 (fleetTick (animate 75000 (movePlayer lastAlienState)))
             else fleetTick (animate 75000 (movePlayer lastAlienState))) = s4"
    by (simp add: fleetTick_def animate_def movePlayer_def Let_def lastAlien_fields s4_def)
  have none: "damageShields bullet (shields x) = None" if "shields x = shields lastAlienState" for x
  proof (rule damageShields_none, intro ballI)
    fix sh k assume "sh \<in> set (shields x)" "k \<in> set sh"
    then have "400 \<le> ypos k" using lastAlien_shields_far that by simp
    then show "\<not> checkCollision2 bullet k" by (simp add: checkCollision2_def bullet_def)
  qed
  define dead where "dead = \<lparr>xpos = 89, ypos = 50, width = 30, height = 24, kind = 2,
      alive = False, alienPoints = 50\<rparr>
     # map (\<lambda>a. a\<lparr>xpos := xpos a + 49, alive := False\<rparr>) (tl (aliens (createAliens fleetStart)))"
  have len: "length dead = 40" "filter alive dead = []"
    by (simp_all add: dead_def createAliens_def Let_def alienRows_def alienCols_def filter_empty_conv)
  define s5 where "s5 = s4\<lparr>aliens := dead, playerBullets := [], score := 1200,
      alienMoveInterval := 200\<rparr>"
  have step: "playerBulletStep 0 s4 = s5"
  proof -
    define s1 where "s1 = s4\<lparr>playerBullets := [bullet]\<rparr>"
    have b: "(playerBullets s4 ! 0)\<lparr>ypos := ypos (playerBullets s4 ! 0) - bulletSpeed\<rparr> = bullet"
      by (simp add: s4_def lastAlien_fields bullet_def bulletSpeed_def)
    have u: "s4\<lparr>playerBullets := (playerBullets s4)[0 := bullet]\<rparr> = s1"
      by (simp add: s1_def s4_def lastAlien_fields)
    have sa: "shootAlien bullet (aliens s1) =
        (dead, Some \<lparr>xpos = 89, ypos = 50, width = 30, height = 24, kind = 2, alive = True,
                     alienPoints = 50\<rparr>)"
      by (simp add: s1_def s4_def lastAlien_fields bullet_def checkCollision2_def dead_def)
    have inside: "\<not> ypos bullet + height bullet < 0" by (simp add: bullet_def)
    have hit: "(let s3 = s1\<lparr>aliens := dead, playerBullets := splice1 0 (playerBullets s1)\<rparr>;
                   s4 = addScore (alienPoints \<lparr>xpos = 89, ypos = 50, width = 30, height = 24,
                          kind = 2, alive = True, alienPoints = 50\<rparr>) s3;
                   aliveCount = int (length (filter alive (aliens s4)))
               in s4\<lparr>alienMoveInterval :=
                        max 100 (1000 - (int (length (aliens s4)) - aliveCount) * 20)\<rparr>) = s5"
      by (simp add: Let_def s1_def s4_def s5_def splice1_def addScore_def len lastAlien_fields)
    have "shieldCheckPlayer bullet 0 s5 = s5"
      unfolding shieldCheckPlayer_def
      by (simp add: none [of s5, unfolded s5_def s4_def, simplified] s5_def s4_def)
    then show ?thesis
      unfolding playerBulletStep_def Let_def b u sa
      by (simp only: inside if_False prod.case option.case hit [unfolded Let_def])
  qed
  have before: "beforeWinCheck 75000 (1 / 2) 0 lastAlienState = s5"
    unfolding beforeWinCheck_def Let_def pre
    by (simp add: updatePlayerBullets_def updateAlienBullets_def s4_def lastAlien_fields
        step [unfolded s4_def] s5_def)
  have "list_all (\<lambda>a. \<not> alive a) (aliens s5)"
    using len(2) by (simp add: s5_def list_all_iff filter_empty_conv)
  then show "list_all (\<lambda>a. \<not> alive a) (aliens (beforeWinCheck 75000 (1 / 2) 0 lastAlienState))"
    unfolding before .
  show "score (beforeWinCheck 75000 (1 / 2) 0 lastAlienState) = 1200"
    "wave (beforeWinCheck 75000 (1 / 2) 0 lastAlienState) = 1"
    "alienSpeed (beforeWinCheck 75000 (1 / 2) 0 lastAlienState) = 1"
    "alienMoveInterval (beforeWinCheck 75000 (1 / 2) 0 lastAlienState) = 200"
    "shields (beforeWinCheck 75000 (1 / 2) 0 lastAlienState) = shields lastAlienState"
    "isRunning (beforeWinCheck 75000 (1 / 2) 0 lastAlienState)"
    "gameOverCalls (beforeWinCheck 75000 (1 / 2) 0 lastAlienState) = []"
    unfolding before by (simp_all add: s5_def s4_def lastAlien_fields)
qed

lemma shieldBlocks_length: "length (shieldBlocks x y) = 62"
  by (simp add: shieldBlocks_def upt_conv_Cons)

lemma lastAlien_start:
  "length (aliens lastAlienState) = 5 * 8 \<and> \<not> list_all (\<lambda>a. \<not> alive a) (aliens lastAlienState)"
  by (simp add: lastAlien_fields createAliens_def Let_def alienRows_def alienCols_def)

theorem invaders_next_wave_witness:
  "list_all (\<lambda>a. \<not> alive a) (aliens (beforeWinCheck 75000 (1 / 2) 0 lastAlienState)) \<and>
   isRunning (beforeWinCheck 75000 (1 / 2) 0 lastAlienState) \<and>
   length (aliens lastAlienState) = 5 * 8 \<and>
   \<not> list_all (\<lambda>a. \<not> alive a) (aliens lastAlienState) \<and>
   wave lastAlienState = 1 \<and> score lastAlienState = 1150 \<and>
   alienMoveInterval lastAlienState = 220 \<and>
   alienMoveInterval (beforeWinCheck 75000 (1 / 2) 0 lastAlienState) = 200 \<and>
   length (aliens (invadersUpdate 75000 (1 / 2) 0 lastAlienState)) = 40 \<and>
   list_all alive (aliens (invadersUpdate 75000 (1 / 2) 0 lastAlienState)) \<and>
   wave (invadersUpdate 75000 (1 / 2) 0 lastAlienState) = 2 \<and>
   alienSpeed (invadersUpdate 75000 (1 / 2) 0 lastAlienState) = 3 / 2 \<and>
   alienMoveInterval (invadersUpdate 75000 (1 / 2) 0 lastAlienState) = 800 \<and>
   score (invadersUpdate 75000 (1 / 2) 0 lastAlienState) = 1400 \<and>
   isRunning (invadersUpdate 75000 (1 / 2) 0 lastAlienState) \<and>
   gameOverCalls (invadersUpdate 75000 (1 / 2) 0 lastAlienState) = []"
proof -
  note h = lastAlien_before(1)
  note run = lastAlien_before(7)
  note r = invaders_next_wave [OF h run, THEN conjunct2, unfolded lastAlien_before(2-4)]
  have w: "wave (invadersUpdate 75000 (1 / 2) 0 lastAlienState) = 2"
    using r by simp
  have i: "alienMoveInterval (beforeWinCheck 75000 (1 / 2) 0 lastAlienState) = 200"
    using r lastAlien_start by blast
  have "length (aliens (invadersUpdate 75000 (1 / 2) 0 lastAlienState)) = 40"
    "list_all alive (aliens (invadersUpdate 75000 (1 / 2) 0 lastAlienState))"
    "alienSpeed (invadersUpdate 75000 (1 / 2) 0 lastAlienState) = 3 / 2"
    "alienMoveInterval (invadersUpdate 75000 (1 / 2) 0 lastAlienState) = 800"
    "score (invadersUpdate 75000 (1 / 2) 0 lastAlienState) = 1400"
    "isRunning (invadersUpdate 75000 (1 / 2) 0 lastAlienState)"
    "gameOverCalls (invadersUpdate 75000 (1 / 2) 0 lastAlienState) = []"
    using r unfolding w by (simp_all add: lastAlien_fields)
  with h run w i lastAlien_start lastAlien_fields(5,11,12) show ?thesis by blast
qed

text \<open>
  The claim as stated fails in two places. After the update that starts wave 2 the first
  shield still has the 61 blocks it had before, not the 62 that \<^verbatim>\<open>createShields\<close> builds; and
  the move interval, 220 at the start of the frame and 200 once the last alien is shot, is
  800 afterwards: longer, not shorter.
\<close>

theorem invaders_shields_kept_interval_longer:
  "list_all (\<lambda>a. \<not> alive a) (aliens (beforeWinCheck 75000 (1 / 2) 0 lastAlienState)) \<and>
   isRunning (beforeWinCheck 75000 (1 / 2) 0 lastAlienState) \<and>
   wave (invadersUpdate 75000 (1 / 2) 0 lastAlienState) = 2 \<and>
   shields (invadersUpdate 75000 (1 / 2) 0 lastAlienState) = shields lastAlienState \<and>
   length (shields (invadersUpdate 75000 (1 / 2) 0 lastAlienState) ! 0) = 61 \<and>
   length (shields (createShields (invadersUpdate 75000 (1 / 2) 0 lastAlienState)) ! 0) = 62 \<and>
   alienMoveInterval lastAlienState = 220 \<and>
   alienMoveInterval (beforeWinCheck 75000 (1 / 2) 0 lastAlienState) = 200 \<and>
   alienMoveInterval (invadersUpdate 75000 (1 / 2) 0 lastAlienState) = 800"
proof -
  note h = lastAlien_before(1)
  define t where "t = beforeWinCheck 75000 (1 / 2) 0 lastAlienState"
  have up: "invadersUpdate 75000 (1 / 2) 0 lastAlienState = nextWave t"
    using h by (simp add: invadersUpdate_def Let_def t_def)
  have w: "wave (nextWave t) = 2"
    using lastAlien_before(3)
    by (simp add: nextWave_def Let_def createAliens_def addScore_def t_def)
  have sh: "shields (nextWave t) = shields lastAlienState"
    using lastAlien_before(6)
    by (simp add: nextWave_def Let_def createAliens_def addScore_def t_def)
  have iv: "alienMoveInterval (nextWave t) = 800"
    using lastAlien_before(3)
    by (simp add: nextWave_def Let_def createAliens_def addScore_def t_def)
  have full: "shields (createShields g) ! 0 = shieldBlocks (canvasWidth g / 5 - 25) (canvasHeight g - 100)"
    for g :: invaders
    by (simp add: createShields_def Let_def upt_conv_Cons)
  have old: "length (shields lastAlienState ! 0) = 61"
    by (simp add: lastAlien_fields(15) full shieldBlocks_length createShields_def Let_def)
  have new: "length (shields (createShields (nextWave t)) ! 0) = 62"
    unfolding full by (rule shieldBlocks_length)
  from h lastAlien_before(5,7) lastAlien_fields(5) w sh iv old new show ?thesis
    unfolding up t_def [symmetric] by simp
qed

section \<open>The score never decreases: Snake\<close>

lemma triggerGameOver_effect:
  "isRunning (triggerGameOver g) = False"
  "gameOverCalls (triggerGameOver g) = gameOverCalls g @ [score g]"
  "score (triggerGameOver g) = score g"
  by (simp_all add: triggerGameOver_def stop_def Let_def)

lemma eatFood_score: "score (eatFood rnd s) = score s + 10"
  by (subst eatFood_eq) simp

lemma snakeUpdate_score:
  assumes "snake s \<noteq> []"
  shows "\<exists>s'. snakeUpdate now rnd s = Inr s' \<and> score s \<le> score s'"
  unfolding snakeUpdate_unfold [OF assms]
  by (simp add: triggerGameOver_effect removeTail_score eatFood_score stepStart_def)

lemma snakeUpdate_wall:
  assumes "moveInterval s \<le> now - lastMoveTime s" and "snake s \<noteq> []"
    and "\<not> inGrid (tileCount s) (stepHead s)"
  shows "\<exists>s'. snakeUpdate now rnd s = Inr s' \<and> isRunning s' = False \<and>
           gameOverCalls s' = gameOverCalls s @ [score s] \<and> snake s' = snake s \<and>
           score s' = score s"
proof -
  have "snakeUpdate now rnd s = Inr (triggerGameOver (stepStart now s))"
    unfolding snakeUpdate_unfold [OF assms(2)] using assms(1,3) by simp
  moreover have "snake (triggerGameOver (stepStart now s)) = snake s"
    by (simp add: triggerGameOver_def stop_def Let_def stepStart_def)
  ultimately show ?thesis
    by (simp add: triggerGameOver_effect stepStart_def)
qed

lemma snakeHandleKeyDown_score: "score (snakeHandleKeyDown code s) = score s"
  unfolding snakeHandleKeyDown_def by simp

section \<open>The score never decreases: Breakout\<close>

lemma brickInv_points:
  assumes "brickInv s" and "c < brickColumnCount s" and "r < brickRowCount s"
  shows "0 \<le> points (bricks s ! c ! r)"
  using assms by (simp add: brickInv_def wfBricks_def list_all_length)

lemma brickInv_fields:
  assumes "bricks t = bricks s" and "brickColumnCount t = brickColumnCount s"
    and "brickRowCount t = brickRowCount s"
  shows "brickInv t = brickInv s"
  using assms by (simp add: brickInv_def wfBricks_def)

lemma list_all_update:
  assumes "list_all P xs" and "P y"
  shows "list_all P (xs[i := y])"
  using assms set_update_subset_insert [of xs i y] by (auto simp: list_all_iff)

lemma hitBrick_inv:
  assumes inv: "brickInv s" and c: "c < brickColumnCount s" and r: "r < brickRowCount s"
  shows "brickInv (hitBrick s c r)" and "score s \<le> score (hitBrick s c r)"
proof -
  have b: "bricks (hitBrick s c r)
           = (bricks s)[c := (bricks s ! c)[r := (bricks s ! c ! r)\<lparr>status := 0\<rparr>]]"
    and n: "brickColumnCount (hitBrick s c r) = brickColumnCount s"
      "brickRowCount (hitBrick s c r) = brickRowCount s"
    and sc: "score (hitBrick s c r) = score s + points (bricks s ! c ! r)"
    by (simp_all add: hitBrick_def Let_def addScore_def)
  show "score s \<le> score (hitBrick s c r)"
    unfolding sc using brickInv_points [OF inv c r] by simp
  have lc: "c < length (bricks s)" using inv c by (simp add: brickInv_def wfBricks_def)
  have col: "length (bricks s ! c) = brickRowCount s"
    "list_all (\<lambda>b. 0 \<le> points b) (bricks s ! c)"
    using inv lc by (simp_all add: brickInv_def wfBricks_def list_all_length)
  have col1: "length ((bricks s ! c)[r := (bricks s ! c ! r)\<lparr>status := 0\<rparr>]) = brickRowCount s"
    using col(1) by simp
  have col2: "list_all (\<lambda>b. 0 \<le> points b)
      ((bricks s ! c)[r := (bricks s ! c ! r)\<lparr>status := 0\<rparr>])"
    using col(2) brickInv_points [OF inv c r] by (intro list_all_update) simp_all
  show "brickInv (hitBrick s c r)"
    unfolding brickInv_def wfBricks_def b n
    using inv col1 col2
    by (simp add: brickInv_def wfBricks_def list_all_update)
qed

lemma checkBrickCollision_inv:
  assumes "brickInv s"
  shows "brickInv (checkBrickCollision s)" and "score s \<le> score (checkBrickCollision s)"
  using checkBrickCollision_cases [of s] hitBrick_inv [OF assms] assms by auto

lemma checkPaddleCollision_inv:
  "brickInv (checkPaddleCollision s) = brickInv s" "score (checkPaddleCollision s) = score s"
  by (simp_all add: checkPaddleCollision_def Let_def brickInv_def wfBricks_def)

lemma createBricks_inv: "brickInv (createBricks s)"
  by (simp add: brickInv_def wfBricks_def createBricks_def list_all_iff)

lemma resetBall_inv: "brickInv (resetBall s) = brickInv s" "score (resetBall s) = score s"
  by (simp_all add: resetBall_def brickInv_def wfBricks_def)

lemma collideAndWin_inv:
  assumes "brickInv s"
  shows "brickInv (collideAndWin s)" and "score s \<le> score (collideAndWin s)"
proof -
  let ?s2 = "checkBrickCollision (checkPaddleCollision s)"
  have i2: "brickInv ?s2" and sc2: "score s \<le> score ?s2"
    using checkBrickCollision_inv [of "checkPaddleCollision s"] assms
    by (simp_all add: checkPaddleCollision_inv)
  let ?s3 = "?s2\<lparr>ball := (ball ?s2)\<lparr>ballSpeed := ballSpeed (ball ?s2) + 1\<rparr>\<rparr>"
  have win: "brickInv (addScore 100 (resetBall (createBricks ?s3)))"
    using createBricks_inv [of ?s3]
    by (simp add: addScore_def brickInv_def wfBricks_def resetBall_def)
  have wsc: "score (addScore 100 (resetBall (createBricks ?s3))) = score ?s2 + 100"
    by (simp add: addScore_def resetBall_def createBricks_def)
  show "brickInv (collideAndWin s)"
    using i2 win by (simp add: collideAndWin_def levelClear_def Let_def)
  show "score s \<le> score (collideAndWin s)"
    using sc2 wsc by (simp add: collideAndWin_def levelClear_def Let_def)
qed

lemma movePaddle_inv: "brickInv (movePaddle s) = brickInv s" "score (movePaddle s) = score s"
  by (simp_all add: movePaddle_def Let_def brickInv_def wfBricks_def)

lemma moveBall_inv: "brickInv (moveBall s) = brickInv s" "score (moveBall s) = score s"
  by (simp_all add: moveBall_def Let_def brickInv_def wfBricks_def)

lemma breakoutUpdate_inv:
  assumes "brickInv s"
  shows "brickInv (breakoutUpdate s)" and "score s \<le> score (breakoutUpdate s)"
proof -
  let ?s2 = "moveBall (movePaddle s)"
  have i2: "brickInv ?s2" "score ?s2 = score s"
    using assms by (simp_all add: moveBall_inv movePaddle_inv)
  let ?s3 = "?s2\<lparr>lives := lives ?s2 - 1\<rparr>"
  have i3: "brickInv ?s3" "score ?s3 = score s" "brickInv (resetBall ?s3)"
    "score (resetBall ?s3) = score s"
    using i2 by (simp_all add: brickInv_def wfBricks_def resetBall_def)
  have over: "brickInv (triggerGameOver ?s3)" "score (triggerGameOver ?s3) = score s"
    using i3 by (simp_all add: triggerGameOver_def stop_def Let_def brickInv_def wfBricks_def)
  have idle: "brickInv ((movePaddle s)\<lparr>ball := b\<rparr>)" "score ((movePaddle s)\<lparr>ball := b\<rparr>) = score s"
    for b
    using assms by (simp_all add: brickInv_def wfBricks_def movePaddle_def Let_def)
  note cw2 = collideAndWin_inv [OF i2(1)] collideAndWin_inv [OF i3(3)]
  show "brickInv (breakoutUpdate s)"
    unfolding breakoutUpdate_def Let_def using idle(1) over(1) cw2 by simp
  show "score s \<le> score (breakoutUpdate s)"
    unfolding breakoutUpdate_def Let_def using idle(2) over(2) cw2 i2(2) i3(4) by simp
qed

lemma breakoutKeys_score:
  "score (breakoutHandleKeyDown code rnd s) = score s"
  "score (breakoutHandleKeyUp code s) = score s"
  by (simp_all add: breakoutHandleKeyDown_def breakoutHandleKeyUp_def launchBall_def Let_def)

section \<open>The score never decreases: Space Invaders\<close>

lemma invadersInv_fields:
  assumes "aliens t = aliens s" and "wave t = wave s"
  shows "invadersInv t = invadersInv s"
  using assms by (simp add: invadersInv_def)

lemma dropAliens_points:
  assumes "list_all (\<lambda>a. 0 \<le> alienPoints a) as"
  shows "list_all (\<lambda>a. 0 \<le> alienPoints a) (fst (dropAliens py as))"
  using assms by (induction as) (auto simp: Let_def split: prod.split)

lemma moveAliens_inv:
  assumes "invadersInv s"
  shows "invadersInv (moveAliens s)" and "score (moveAliens s) = score s"
proof -
  have d: "list_all (\<lambda>a. 0 \<le> alienPoints a) (fst (dropAliens (ypos (player s)) (aliens s)))"
    using assms by (intro dropAliens_points) (simp add: invadersInv_def)
  have m: "list_all (\<lambda>a. 0 \<le> alienPoints a)
      (map (\<lambda>a. if alive a then a\<lparr>xpos := xpos a + alienSpeed s * alienDirection s\<rparr> else a)
         (aliens s))"
    using assms by (auto simp: invadersInv_def list_all_iff)
  obtain as1 reached where da: "dropAliens (ypos (player s)) (aliens s) = (as1, reached)"
    by (cases "dropAliens (ypos (player s)) (aliens s)")
  have d1: "list_all (\<lambda>a. 0 \<le> alienPoints a) as1" using d da by simp
  show "invadersInv (moveAliens s)"
    using assms d1 m
    by (simp add: moveAliens_def invadersInv_def triggerGameOver_def stop_def Let_def da)
  show "score (moveAliens s) = score s"
    by (simp add: moveAliens_def triggerGameOver_def stop_def Let_def split: prod.split)
qed

lemma fleetTick_inv:
  assumes "invadersInv s"
  shows "invadersInv (fleetTick s)" and "score (fleetTick s) = score s"
proof -
  let ?s1 = "s\<lparr>alienMoveTimer := 0\<rparr>"
  have "invadersInv ?s1" using assms by (simp add: invadersInv_def)
  from moveAliens_inv [OF this] assms
  show "invadersInv (fleetTick s)" "score (fleetTick s) = score s"
    by (simp_all add: fleetTick_def Let_def invadersInv_def)
qed

lemma alienShoot_inv:
  "invadersInv (alienShoot rnd s) = invadersInv s" "score (alienShoot rnd s) = score s"
  by (simp_all add: alienShoot_def Let_def invadersInv_def)

lemma shootAlien_points:
  assumes "list_all (\<lambda>a. 0 \<le> alienPoints a) as"
  shows "list_all (\<lambda>a. 0 \<le> alienPoints a) (fst (shootAlien b as))"
    and "snd (shootAlien b as) = Some a \<Longrightarrow> 0 \<le> alienPoints a"
  using assms by (induction as) (auto simp: Let_def split: prod.splits if_splits)

lemma shieldCheck_inv:
  "invadersInv (shieldCheckPlayer b i s) = invadersInv s"
  "score (shieldCheckPlayer b i s) = score s"
  "invadersInv (shieldCheckAlien b i s) = invadersInv s"
  "score (shieldCheckAlien b i s) = score s"
  by (simp_all add: shieldCheckPlayer_def shieldCheckAlien_def invadersInv_def
      split: option.split)

lemma playerBulletStep_inv:
  assumes "invadersInv s"
  shows "invadersInv (playerBulletStep i s)" and "score s \<le> score (playerBulletStep i s)"
proof -
  define bullet where "bullet = (playerBullets s ! i)\<lparr>ypos := ypos (playerBullets s ! i) - bulletSpeed\<rparr>"
  define s1 where "s1 = s\<lparr>playerBullets := (playerBullets s)[i := bullet]\<rparr>"
  have i1: "invadersInv s1" "score s1 = score s" "aliens s1 = aliens s"
    using assms by (simp_all add: s1_def invadersInv_def)
  obtain as1 r where sa: "shootAlien bullet (aliens s1) = (as1, r)"
    by (cases "shootAlien bullet (aliens s1)")
  have pts: "list_all (\<lambda>a. 0 \<le> alienPoints a) (aliens s1)"
    using i1(1) by (simp add: invadersInv_def)
  have as1: "list_all (\<lambda>a. 0 \<le> alienPoints a) as1"
    using shootAlien_points(1) [OF pts, of bullet] sa by simp
  have r: "0 \<le> alienPoints a" if "r = Some a" for a
    using shootAlien_points(2) [OF pts, of bullet a] sa that by simp
  define s2 where "s2 = (case shootAlien bullet (aliens s1) of
                           (as1, None) \<Rightarrow> s1
                         | (as1, Some a) \<Rightarrow>
                             (let s3 = s1\<lparr>aliens := as1,
                                          playerBullets := splice1 i (playerBullets s1)\<rparr>;
                                  s4 = addScore (alienPoints a) s3;
                                  aliveCount = int (length (filter alive (aliens s4)))
                              in s4\<lparr>alienMoveInterval :=
                                      max 100 (1000 - (int (length (aliens s4)) - aliveCount) * 20)\<rparr>))"
  have i2: "invadersInv s2 \<and> score s \<le> score s2"
  proof (cases r)
    case None
    then show ?thesis using i1(1,2) by (simp add: s2_def sa)
  next
    case (Some a)
    then show ?thesis
      using i1(1,2) as1 r [OF Some]
      by (simp add: s2_def sa Let_def addScore_def invadersInv_def)
  qed
  have step: "playerBulletStep i s =
      (if ypos bullet + height bullet < 0
       then s1\<lparr>playerBullets := splice1 i (playerBullets s1)\<rparr>
       else shieldCheckPlayer bullet i s2)"
    unfolding playerBulletStep_def Let_def s2_def s1_def bullet_def by simp
  have off: "invadersInv (s1\<lparr>playerBullets := splice1 i (playerBullets s1)\<rparr>)"
    "score (s1\<lparr>playerBullets := splice1 i (playerBullets s1)\<rparr>) = score s"
    using i1 by (simp_all add: invadersInv_def)
  show "invadersInv (playerBulletStep i s)"
    unfolding step using off i2 by (simp add: shieldCheck_inv)
  show "score s \<le> score (playerBulletStep i s)"
    unfolding step using off i2 by (simp add: shieldCheck_inv)
qed

lemma playerBulletLoop_inv:
  assumes "invadersInv s"
  shows "invadersInv (playerBulletLoop i s) \<and> score s \<le> score (playerBulletLoop i s)"
  using assms
proof (induction i arbitrary: s)
  case 0
  then show ?case by simp
next
  case (Suc i)
  from playerBulletStep_inv [OF Suc.prems, of i]
  have a: "invadersInv (playerBulletStep i s)" "score s \<le> score (playerBulletStep i s)"
    by simp_all
  from Suc.IH [OF a(1)] a(2) show ?case by simp
qed

lemma alienBulletLoop_inv:
  assumes "invadersInv s"
  shows "invadersInv (alienBulletLoop i s) \<and> score (alienBulletLoop i s) = score s"
  using assms
proof (induction i arbitrary: s)
  case 0
  then show ?case by simp
next
  case (Suc i)
  define bullet where "bullet = (alienBullets s ! i)\<lparr>ypos := ypos (alienBullets s ! i) + alienBulletSpeed\<rparr>"
  define s1 where "s1 = s\<lparr>alienBullets := (alienBullets s)[i := bullet]\<rparr>"
  have i1: "invadersInv s1" "score s1 = score s"
    using Suc.prems by (simp_all add: s1_def invadersInv_def)
  have off: "invadersInv (s1\<lparr>alienBullets := splice1 i (alienBullets s1)\<rparr>)"
    "score (s1\<lparr>alienBullets := splice1 i (alienBullets s1)\<rparr>) = score s"
    using i1 by (simp_all add: invadersInv_def)
  have over: "invadersInv (triggerGameOver s1)" "score (triggerGameOver s1) = score s"
    using i1 by (simp_all add: triggerGameOver_def stop_def Let_def invadersInv_def)
  have sh: "invadersInv (shieldCheckAlien bullet i s1)" "score (shieldCheckAlien bullet i s1) = score s"
    using i1 by (simp_all add: shieldCheck_inv)
  have step: "alienBulletLoop (Suc i) s =
      (if ypos bullet > canvasHeight s1
       then alienBulletLoop i (s1\<lparr>alienBullets := splice1 i (alienBullets s1)\<rparr>)
       else if checkCollision2 bullet (player s1) then triggerGameOver s1
       else alienBulletLoop i (shieldCheckAlien bullet i s1))"
    by (simp add: Let_def s1_def bullet_def)
  show ?case
    unfolding step using Suc.IH [OF off(1)] Suc.IH [OF sh(1)] off(2) sh(2) over by simp
qed

lemma nextWave_inv:
  assumes "invadersInv s"
  shows "invadersInv (nextWave s)" and "score s \<le> score (nextWave s)"
proof -
  have w: "0 \<le> wave s" using assms by (simp add: invadersInv_def)
  have pts: "list_all (\<lambda>a. 0 \<le> alienPoints a) (aliens (createAliens t))" for t
    by (auto simp: createAliens_def Let_def list_all_iff alienRows_def)
  have al: "aliens (nextWave s) = aliens (createAliens (s\<lparr>wave := wave s + 1,
      alienSpeed := alienSpeed s + 0.5, alienMoveInterval := max 200 (1000 - (wave s + 1) * 100)\<rparr>))"
    by (simp add: nextWave_def Let_def addScore_def createAliens_def)
  have rest: "wave (nextWave s) = wave s + 1" "score (nextWave s) = score s + 100 * (wave s + 1)"
    by (simp_all add: nextWave_def Let_def addScore_def createAliens_def)
  show "invadersInv (nextWave s)"
    unfolding invadersInv_def al rest using pts w by simp
  show "score s \<le> score (nextWave s)"
    unfolding rest using w by simp
qed

lemma invadersUpdate_inv:
  assumes "invadersInv s"
  shows "invadersInv (invadersUpdate now rnd1 rnd2 s)"
    and "score s \<le> score (invadersUpdate now rnd1 rnd2 s)"
proof -
  let ?s2 = "animate now (movePlayer s)"
  have i2: "invadersInv ?s2" "score ?s2 = score s"
    using assms by (simp_all add: animate_def movePlayer_def Let_def invadersInv_def)
  let ?s3 = "fleetTick ?s2"
  have i3: "invadersInv ?s3" "score ?s3 = score s"
    using fleetTick_inv [OF i2(1)] i2(2) by simp_all
  let ?s4 = "if rnd1 < 0.02 then alienShoot rnd2 ?s3 else ?s3"
  have i4: "invadersInv ?s4" "score ?s4 = score s"
    using i3 by (simp_all add: alienShoot_inv)
  let ?s5 = "updatePlayerBullets ?s4"
  have i5: "invadersInv ?s5" "score s \<le> score ?s5"
    using playerBulletLoop_inv [OF i4(1)] i4(2) by (simp_all add: updatePlayerBullets_def)
  let ?s6 = "updateAlienBullets ?s5"
  have i6: "invadersInv ?s6" "score s \<le> score ?s6"
    using alienBulletLoop_inv [OF i5(1)] i5(2) by (simp_all add: updateAlienBullets_def)
  have b: "beforeWinCheck now rnd1 rnd2 s = ?s6"
    by (simp add: beforeWinCheck_def Let_def)
  show "invadersInv (invadersUpdate now rnd1 rnd2 s)"
    unfolding invadersUpdate_def Let_def b using i6(1) nextWave_inv(1) [OF i6(1)] by simp
  show "score s \<le> score (invadersUpdate now rnd1 rnd2 s)"
    unfolding invadersUpdate_def Let_def b using i6(2) nextWave_inv(2) [OF i6(1)] by simp
qed

lemma invadersKeys_score:
  "score (invadersHandleKeyDown code s) = score s"
  "score (invadersHandleKeyUp code s) = score s"
  "score (cooldownOver s) = score s"
  by (simp_all add: invadersHandleKeyDown_def invadersHandleKeyUp_def shoot_def cooldownOver_def)

lemma createAliens_inv: "0 \<le> wave s \<Longrightarrow> invadersInv (createAliens s)"
  by (auto simp: invadersInv_def createAliens_def Let_def list_all_iff alienRows_def)

section \<open>The score never decreases: Tetris\<close>

lemma clearLoop_result:
  assumes "- 1 \<le> y" and "y < int (length b)"
  shows "clearLoop y b n =
    Inr (replicate (length (filter isFull (take (nat (y + 1)) b))) emptyLine @
           filter (\<lambda>line. \<not> isFull line) (take (nat (y + 1)) b) @ drop (nat (y + 1)) b,
         n + length (filter isFull (take (nat (y + 1)) b)))"
  using assms
proof (induction y b n rule: clearLoop.induct)
  case (1 y b n)
  show ?case
  proof (cases "y < 0")
    case True
    then have "y = - 1" using "1.prems" by simp
    then show ?thesis by (subst clearLoop.simps) simp
  next
    case False
    then have y0: "0 \<le> y" by simp
    define k where "k = nat y"
    have k: "k < length b" "y = int k" "nat (y + 1) = Suc k" using y0 "1.prems" by (simp_all add: k_def)
    have tk: "take (Suc k) b = take k b @ [b ! k]" using k(1) by (rule take_Suc_conv_app_nth)
    show ?thesis
    proof (cases "isFull (b ! k)")
      case True
      let ?b1 = "emptyLine # (take k b @ drop (Suc k) b)"
      have len: "length ?b1 = length b" using k(1) by simp
      have t1: "take (Suc k) ?b1 = emptyLine # take k b" using k(1) by simp
      have d1: "drop (Suc k) ?b1 = drop (Suc k) b" using k(1) by simp
      have ih: "clearLoop y ?b1 (n + 1) =
          Inr (replicate (length (filter isFull (take (nat (y + 1)) ?b1))) emptyLine @
                 filter (\<lambda>line. \<not> isFull line) (take (nat (y + 1)) ?b1) @ drop (nat (y + 1)) ?b1,
               n + 1 + length (filter isFull (take (nat (y + 1)) ?b1)))"
        using False "1.prems" True k len unfolding k_def
        by (intro "1.IH"(1)) simp_all
      have step: "clearLoop y b n = clearLoop y ?b1 (n + 1)"
        unfolding k_def using False "1.prems" True [unfolded k_def]
        by (subst clearLoop.simps) simp
      show ?thesis
        unfolding step ih k(3) t1 d1 tk
        using True by (simp add: emptyLine_not_full replicate_app_Cons_same)
    next
      case nf: False
      have ih: "clearLoop (y - 1) b n =
          Inr (replicate (length (filter isFull (take (nat (y - 1 + 1)) b))) emptyLine @
                 filter (\<lambda>line. \<not> isFull line) (take (nat (y - 1 + 1)) b) @ drop (nat (y - 1 + 1)) b,
               n + length (filter isFull (take (nat (y - 1 + 1)) b)))"
        using False "1.prems" nf k unfolding k_def
        by (intro "1.IH"(2)) simp_all
      have step: "clearLoop y b n = clearLoop (y - 1) b n"
        unfolding k_def using False "1.prems" nf [unfolded k_def]
        by (subst clearLoop.simps) simp
      have yk: "nat (y - 1 + 1) = k" by (simp add: k_def)
      have dk: "drop k b = b ! k # drop (Suc k) b" using k(1) by (rule Cons_nth_drop_Suc [symmetric])
      show ?thesis
        unfolding step ih k(3) yk tk dk using nf by simp
    qed
  qed
qed

lemma clearLoop_board:
  assumes "wfBoard b"
  shows "\<exists>b'. clearLoop (rows - 1) b 0 = Inr (b', length (filter isFull b)) \<and>
           wfBoard b' \<and> list_all (\<lambda>line. \<not> isFull line) b'"
proof -
  have len: "length b = 20" using assms by (rule wfBoard_length)
  let ?k = "length (filter isFull b)"
  let ?b' = "replicate ?k emptyLine @ filter (\<lambda>line. \<not> isFull line) b"
  have "clearLoop (rows - 1) b 0 = Inr (?b', ?k)"
    using clearLoop_result [of "rows - 1" b 0] len by (simp add: rows_def)
  moreover have "length ?b' = 20"
    using sum_length_filter_compl [of isFull b] len by simp
  moreover have "list_all (\<lambda>line. int (length line) = cols) ?b'"
    using assms by (auto simp: wfBoard_def list_all_iff emptyLine_def cols_def)
  moreover have "list_all (\<lambda>line. \<not> isFull line) ?b'"
    by (auto simp: list_all_iff emptyLine_not_full)
  ultimately show ?thesis by (auto simp: wfBoard_def rows_def)
qed

lemma rotation_cases: "r < 4 \<Longrightarrow> r = 0 \<or> r = 1 \<or> r = 2 \<or> r = (3::nat)"
  by arith

lemma shapeCells_rows:
  assumes "r < 4" and "(col, row) \<in> set (shapeCells (shape p ! r))"
  shows "0 \<le> row \<and> row \<le> 3"
  using rotation_cases [OF assms(1)] assms(2)
  by (cases p) (auto simp: shapeCells_def rowCells_def)

lemma shapeCells_nonempty:
  assumes "r < 4"
  shows "\<exists>col row. (col, row) \<in> set (shapeCells (shape p ! r)) \<and> 0 \<le> row"
proof -
  have "shapeCells (shape p ! r) \<noteq> []"
    using rotation_cases [OF assms]
    by (cases p) (auto simp: shapeCells_def rowCells_def)
  then obtain cell where c: "cell \<in> set (shapeCells (shape p ! r))"
    by (cases "shapeCells (shape p ! r)") auto
  obtain col row where "cell = (col, row)" by (cases cell)
  with c shapeCells_rows [OF assms, of col row p] show ?thesis by blast
qed

lemma four_rows: "card {i::nat. y \<le> int i \<and> int i \<le> y + 3} \<le> 4"
proof -
  have "{i::nat. y \<le> int i \<and> int i \<le> y + 3} \<subseteq> nat ` {y..y + 3}"
  proof
    fix i assume "i \<in> {i::nat. y \<le> int i \<and> int i \<le> y + 3}"
    then have "int i \<in> {y..y + 3}" by simp
    then have "nat (int i) \<in> nat ` {y..y + 3}" by (rule imageI)
    then show "i \<in> nat ` {y..y + 3}" by simp
  qed
  then have "card {i::nat. y \<le> int i \<and> int i \<le> y + 3} \<le> card (nat ` {y..y + 3})"
    by (intro card_mono) simp_all
  also have "\<dots> \<le> card {y..y + 3}" by (intro card_image_le) simp
  also have "\<dots> = 4" by simp
  finally show ?thesis .
qed

lemma lockWrite_full_rows:
  assumes inv: "tetrisInv s"
  shows "\<exists>b'. lockWrite s = Inr b' \<and> wfBoard b' \<and> length (filter isFull b') \<le> 4"
proof -
  let ?x = "currentX s" and ?y = "currentY s"
  let ?cells = "shapeCells (getPieceShape s (currentRotation s))"
  have wf: "wfBoard (board s)" and nofull: "list_all (\<lambda>line. \<not> isFull line) (board s)"
    and rot: "currentRotation s < 4"
    using inv by (simp_all add: tetrisInv_def)
  from lockCells_in_bounds [OF wf, of ?x ?y "getPieceColor s" ?cells]
  obtain b' where b': "lockWrite s = Inr b'" "wfBoard b'"
    "\<forall>i<20. \<forall>j<10. b' ! i ! j =
       (if (int j - ?x, int i - ?y) \<in> set ?cells then Color (getPieceColor s)
        else board s ! i ! j)"
    unfolding lockWrite_def by blast
  have len: "length b' = 20" "length (board s) = 20"
    using b'(2) wf by (simp_all add: wfBoard_length)
  have untouched: "\<not> isFull (b' ! i)" if i: "i < 20" and out: "\<not> (?y \<le> int i \<and> int i \<le> ?y + 3)" for i
  proof -
    have "b' ! i ! j = board s ! i ! j" if "j < 10" for j
    proof -
      have "(int j - ?x, int i - ?y) \<notin> set ?cells"
        using shapeCells_rows [OF rot, of "int j - ?x" "int i - ?y" "currentPiece s"] out
        by (auto simp: getPieceShape_def)
      then show ?thesis using b'(3) i that by simp
    qed
    moreover have "length (b' ! i) = 10" "length (board s ! i) = 10"
      using wfBoard_row [OF b'(2) i] wfBoard_row [OF wf i] by simp_all
    ultimately have "b' ! i = board s ! i" by (intro nth_equalityI) simp_all
    moreover have "\<not> isFull (board s ! i)"
      using nofull i len by (simp add: list_all_length)
    ultimately show ?thesis by simp
  qed
  have "{i. i < length b' \<and> isFull (b' ! i)} \<subseteq> {i::nat. ?y \<le> int i \<and> int i \<le> ?y + 3}"
    using untouched len by auto
  moreover have "finite {i::nat. ?y \<le> int i \<and> int i \<le> ?y + 3}"
  proof (rule finite_subset)
    show "{i::nat. ?y \<le> int i \<and> int i \<le> ?y + 3} \<subseteq> {..nat (?y + 3)}" by auto
  qed simp
  ultimately have "card {i. i < length b' \<and> isFull (b' ! i)}
      \<le> card {i::nat. ?y \<le> int i \<and> int i \<le> ?y + 3}"
    by (intro card_mono)
  also have "\<dots> \<le> 4" by (rule four_rows)
  finally have "length (filter isFull b') \<le> 4" by (simp add: length_filter_conv_card)
  with b'(1,2) show ?thesis by blast
qed

lemma linePoints_nonneg:
  assumes "n \<le> 4" and "0 < n"
  shows "\<exists>p. linePoints n = Some p \<and> 0 \<le> p"
proof -
  have "n = 1 \<or> n = 2 \<or> n = 3 \<or> n = 4" using assms by arith
  then show ?thesis by (auto simp: linePoints_def)
qed

lemma clearLines_inv:
  assumes wf: "wfBoard (board s)" and few: "length (filter isFull (board s)) \<le> 4"
    and lv: "1 \<le> level s" and rot: "currentRotation s < 4"
  shows "\<exists>s'. clearLines s = Inr s' \<and> tetrisInv s' \<and> score s \<le> score s' \<and>
           currentPiece s' = currentPiece s \<and> nextPiece s' = nextPiece s"
proof -
  let ?k = "length (filter isFull (board s))"
  from clearLoop_board [OF wf] obtain b' where b':
    "clearLoop (rows - 1) (board s) 0 = Inr (b', ?k)" "wfBoard b'"
    "list_all (\<lambda>line. \<not> isFull line) b'"
    by blast
  show ?thesis
  proof (cases "?k > 0")
    case False
    then have "clearLines s = Inr (s\<lparr>board := b'\<rparr>)"
      by (simp add: clearLines_def b'(1) Let_def)
    then show ?thesis using b'(2,3) lv rot by (simp add: tetrisInv_def)
  next
    case True
    from linePoints_nonneg [OF few True] obtain p where p: "linePoints ?k = Some p" "0 \<le> p"
      by blast
    define s3 where "s3 = s\<lparr>board := b', lines := lines s + int ?k, score := score s + p * level s\<rparr>"
    define newLevel where "newLevel = lines s3 div 10 + 1"
    have cl: "clearLines s =
        (if newLevel > level s3
         then Inr (s3\<lparr>level := newLevel, dropInterval := max 100 (1000 - (newLevel - 1) * 100)\<rparr>)
         else Inr s3)"
      using True by (simp add: clearLines_def b'(1) Let_def p(1) addScore_def s3_def newLevel_def)
    have pl: "0 \<le> p * level s" using p(2) lv by simp
    have i3: "tetrisInv s3" "score s \<le> score s3" "level s3 = level s"
      "currentPiece s3 = currentPiece s" "nextPiece s3 = nextPiece s"
      using b'(2,3) lv rot pl by (simp_all add: s3_def tetrisInv_def)
    show ?thesis
      unfolding cl using i3 by (auto simp: tetrisInv_def)
  qed
qed

lemma spawnPiece_inv:
  assumes "tetrisInv s"
  shows "tetrisInv (spawnPiece rnd s)" and "score (spawnPiece rnd s) = score s"
  using assms
  by (simp_all add: spawnPiece_def Let_def tetrisInv_def triggerGameOver_def stop_def)

lemma lockPiece_inv:
  assumes "tetrisInv s"
  shows "\<exists>s'. lockPiece rnd s = Inr s' \<and> tetrisInv s' \<and> score s \<le> score s'"
proof -
  from lockWrite_full_rows [OF assms] obtain b' where b':
    "lockWrite s = Inr b'" "wfBoard b'" "length (filter isFull b') \<le> 4"
    by blast
  have "\<exists>s1. clearLines (s\<lparr>board := b'\<rparr>) = Inr s1 \<and> tetrisInv s1 \<and>
      score (s\<lparr>board := b'\<rparr>) \<le> score s1 \<and>
      currentPiece s1 = currentPiece (s\<lparr>board := b'\<rparr>) \<and>
      nextPiece s1 = nextPiece (s\<lparr>board := b'\<rparr>)"
    using b'(2,3) assms by (intro clearLines_inv) (simp_all add: tetrisInv_def)
  then obtain s1 where s1: "clearLines (s\<lparr>board := b'\<rparr>) = Inr s1" "tetrisInv s1"
    "score s \<le> score s1"
    by auto
  have "lockPiece rnd s = Inr (spawnPiece rnd s1)"
    by (simp add: lockPiece_def b'(1) s1(1))
  with spawnPiece_inv [OF s1(2), of rnd] s1(3) show ?thesis by simp
qed

lemma tetrisInv_fields:
  assumes "board t = board s" and "currentRotation t < 4" and "level t = level s"
    and "tetrisInv s"
  shows "tetrisInv t"
  using assms by (simp add: tetrisInv_def)

lemma tryKicks_inv:
  assumes "tetrisInv s" and "r < 4"
  shows "tetrisInv (tryKicks s r ks) \<and> score (tryKicks s r ks) = score s"
  using assms by (induction ks) (simp_all add: tetrisInv_def)

lemma moves_inv:
  assumes "tetrisInv s"
  shows "tetrisInv (moveLeft s) \<and> score (moveLeft s) = score s"
    and "tetrisInv (moveRight s) \<and> score (moveRight s) = score s"
    and "tetrisInv (rotatePiece s) \<and> score (rotatePiece s) = score s"
    and "tetrisInv (softDrop s) \<and> score s \<le> score (softDrop s)"
proof -
  show "tetrisInv (moveLeft s) \<and> score (moveLeft s) = score s"
    using assms by (simp add: moveLeft_def tetrisInv_def)
  show "tetrisInv (moveRight s) \<and> score (moveRight s) = score s"
    using assms by (simp add: moveRight_def tetrisInv_def)
  have r: "(currentRotation s + 1) mod 4 < 4" by simp
  show "tetrisInv (rotatePiece s) \<and> score (rotatePiece s) = score s"
    using assms tryKicks_inv [OF assms r, of kicks]
    by (simp add: rotatePiece_def Let_def tetrisInv_def)
  show "tetrisInv (softDrop s) \<and> score s \<le> score (softDrop s)"
    using assms by (simp add: softDrop_def addScore_def tetrisInv_def)
qed

lemma free_below_bottom:
  assumes "currentRotation s < 4"
    and "\<not> checkCollision s x y (currentRotation s)"
  shows "y < rows"
proof -
  from shapeCells_nonempty [OF assms(1), of "currentPiece s"]
  obtain col row where c: "(col, row) \<in> set (shapeCells (shape (currentPiece s) ! currentRotation s))"
    "0 \<le> row" by blast
  have "\<not> cellBlocked (board s) (x + col) (y + row)"
    using assms(2) c(1) by (auto simp: checkCollision_def list_ex_iff)
  then have "y + row < rows" by (auto simp: cellBlocked_def split: if_splits)
  with c(2) show ?thesis by simp
qed

lemma hardDropLoop_total:
  assumes "tetrisInv s" and "0 \<le> d"
  shows "\<exists>s1 d1. hardDropLoop s d = Some (s1, d1) \<and> tetrisInv s1 \<and> score s1 = score s \<and> d \<le> d1"
  using assms
proof (induction "nat (rows - currentY s)" arbitrary: s d rule: less_induct)
  case less
  have rot: "currentRotation s < 4" using less.prems(1) by (simp add: tetrisInv_def)
  show ?case
  proof (cases "checkCollision s (currentX s) (currentY s + 1) (currentRotation s)")
    case True
    then have "hardDropLoop s d = Some (s, d)"
      by (subst hardDropLoop.simps) simp
    with less.prems show ?thesis by simp
  next
    case False
    let ?s1 = "s\<lparr>currentY := currentY s + 1\<rparr>"
    have below: "currentY s + 1 < rows" using rot False by (rule free_below_bottom)
    have step: "hardDropLoop s d = hardDropLoop ?s1 (d + 1)"
      using False by (subst hardDropLoop.simps) simp
    have inv1: "tetrisInv ?s1" using less.prems(1) by (simp add: tetrisInv_def)
    have "\<exists>s2 d2. hardDropLoop ?s1 (d + 1) = Some (s2, d2) \<and> tetrisInv s2 \<and>
        score s2 = score ?s1 \<and> d + 1 \<le> d2"
      using below inv1 less.prems(2) by (intro less.hyps) simp_all
    then show ?thesis unfolding step by auto
  qed
qed

lemma hardDrop_inv:
  assumes "tetrisInv s"
  shows "\<exists>s'. hardDrop rnd s = Some (Inr s') \<and> tetrisInv s' \<and> score s \<le> score s'"
proof -
  from hardDropLoop_total [OF assms, of 0] obtain s1 d1 where l:
    "hardDropLoop s 0 = Some (s1, d1)" "tetrisInv s1" "score s1 = score s" "0 \<le> d1"
    by auto
  let ?s2 = "addScore (d1 * 2) s1"
  have i2: "tetrisInv ?s2" "score s \<le> score ?s2"
    using l by (simp_all add: addScore_def tetrisInv_def)
  from lockPiece_inv [OF i2(1), of rnd] obtain s' where
    "lockPiece rnd ?s2 = Inr s'" "tetrisInv s'" "score ?s2 \<le> score s'" by blast
  with i2(2) l(1) show ?thesis by (simp add: hardDrop_def)
qed

lemma tetrisHandleKeyDown_inv:
  assumes "tetrisInv s"
  shows "\<exists>s'. tetrisHandleKeyDown code rnd s = Some (Inr s') \<and> tetrisInv s' \<and>
           score s \<le> score s'"
proof -
  have sd: "tetrisInv (s\<lparr>softDropping := True\<rparr>)" using assms by (simp add: tetrisInv_def)
  show ?thesis
    unfolding tetrisHandleKeyDown_def
    using moves_inv [OF assms] moves_inv(4) [OF sd] hardDrop_inv [OF assms, of rnd] assms
    by (simp split del: if_split cong: if_cong)
       (auto split: if_splits)
qed

lemma tetrisHandleKeyUp_inv:
  assumes "tetrisInv s"
  shows "tetrisInv (tetrisHandleKeyUp code s) \<and> score (tetrisHandleKeyUp code s) = score s"
  using assms by (simp add: tetrisHandleKeyUp_def tetrisInv_def)

lemma tetrisUpdate_inv:
  assumes "tetrisInv s"
  shows "\<exists>s'. tetrisUpdate now rnd s = Inr s' \<and> tetrisInv s' \<and> score s \<le> score s'"
proof -
  define s2 where "s2 = s\<lparr>lastTime := now, dropTimer := dropTimer s + (now - lastTime s)\<rparr>"
  define s3 where "s3 = s2\<lparr>dropTimer := 0\<rparr>"
  have i: "tetrisInv s2" "score s2 = score s" "tetrisInv s3" "score s3 = score s"
    "tetrisInv (s3\<lparr>currentY := currentY s3 + 1\<rparr>)"
    "score (s3\<lparr>currentY := currentY s3 + 1\<rparr>) = score s"
    using assms by (simp_all add: s2_def s3_def tetrisInv_def)
  from lockPiece_inv [OF i(3), of rnd] obtain s' where l:
    "lockPiece rnd s3 = Inr s'" "tetrisInv s'" "score s \<le> score s'"
    using i(4) by auto
  have "tetrisUpdate now rnd s =
     (if dropTimer s2 \<ge> (if softDropping s2 then real_of_int (dropInterval s2) / 10
                               else real_of_int (dropInterval s2))
      then (if \<not> checkCollision s3 (currentX s3) (currentY s3 + 1) (currentRotation s3)
            then Inr (s3\<lparr>currentY := currentY s3 + 1\<rparr>)
            else lockPiece rnd s3)
      else Inr s2)"
    by (simp add: tetrisUpdate_def Let_def s2_def s3_def)
  then show ?thesis using i l by auto
qed

lemma tetrisInv_start:
  "1 \<le> level s \<Longrightarrow> currentRotation s < 4 \<Longrightarrow> board s = emptyBoard \<Longrightarrow> tetrisInv s"
  by (simp add: tetrisInv_def wfBoard_emptyBoard)
    (simp add: emptyBoard_def list_all_iff isFull_def)

section \<open>The score never decreases\<close>

lemma snakeUpdate_nonempty:
  assumes "snake s \<noteq> []" and "snakeUpdate now rnd s = Inr s'"
  shows "snake s' \<noteq> []"
proof -
  obtain h t where ht: "snake s = h # t" using assms(1) by (cases "snake s") auto
  have e: "snake (eatFood rnd x) = snake x" for x :: snake_game
    by (subst eatFood_eq) simp
  have r: "snake (removeTail x) \<noteq> []" if "snake x = a # h # t" for x :: snake_game and a
    using that by (simp add: removeTail_def)
  have g: "snake (triggerGameOver (stepStart now s)) = h # t"
    by (simp add: triggerGameOver_def stop_def Let_def stepStart_def ht)
  have x: "snake ((stepStart now s)\<lparr>snake := stepHead s # snake s\<rparr>) = stepHead s # h # t"
    by (simp add: ht)
  from assms(2) show ?thesis
    unfolding snakeUpdate_unfold [OF assms(1)]
    using r [OF x] r [of "eatFood rnd ((stepStart now s)\<lparr>snake := stepHead s # snake s\<rparr>)"]
      e [of "(stepStart now s)\<lparr>snake := stepHead s # snake s\<rparr>"] x g assms(1)
    by (auto split: if_splits)
qed

lemma keys_inv:
  "brickInv (breakoutHandleKeyDown code r b) = brickInv b"
  "brickInv (breakoutHandleKeyUp code b) = brickInv b"
  "invadersInv (invadersHandleKeyDown code v) = invadersInv v"
  "invadersInv (invadersHandleKeyUp code v) = invadersInv v"
  "invadersInv (cooldownOver v) = invadersInv v"
  by (simp_all add: breakoutHandleKeyDown_def breakoutHandleKeyUp_def launchBall_def Let_def
      brickInv_def wfBricks_def invadersHandleKeyDown_def invadersHandleKeyUp_def shoot_def
      cooldownOver_def invadersInv_def)

text \<open>
  C6. A Snake step whose new head cell lies outside the grid, whatever the grid's size,
  ends the run: \<open>isRunning\<close> is false, the controller is told the score, the snake is as it
  was (the head is not inserted) and so is the score. No Snake operation lowers the score.
  \<^verbatim>\<open>addScore\<close> adds its argument, so it never lowers the score when given a number that is
  not negative, and the games only pass such numbers: no frame update and no key handler
  of Breakout, Space Invaders or Tetris lowers the score. This is shown for the states
  the games can be in: brick and alien points are not negative and the wave is not
  negative (\<^verbatim>\<open>createBricks\<close> and \<^verbatim>\<open>createAliens\<close> make it so), the Tetris board is 20 by 10
  with no full row left between locks, the rotation index is below 4 and the level at
  least 1; every operation keeps these facts, and in Tetris every operation returns
  (the hard drop loop ends and no lock clears more than four lines).
\<close>

theorem score_never_decreases:
  "(moveInterval s \<le> now - lastMoveTime s \<and> snake s \<noteq> [] \<and>
      \<not> inGrid (tileCount s) (stepHead s)
      \<longrightarrow> (\<exists>s'. snakeUpdate now rnd s = Inr s' \<and> isRunning s' = False \<and>
              gameOverCalls s' = gameOverCalls s @ [score s] \<and> snake s' = snake s \<and>
              score s' = score s)) \<and>
   (snake s \<noteq> []
      \<longrightarrow> (\<exists>s'. snakeUpdate now rnd s = Inr s' \<and> snake s' \<noteq> [] \<and> score s \<le> score s')) \<and>
   snake (snakeHandleKeyDown code s) = snake s \<and>
   score (snakeHandleKeyDown code s) = score s \<and>
   (0 \<le> n \<longrightarrow> score g \<le> score (addScore n g)) \<and>
   score (stop g) = score g \<and> score (triggerGameOver g) = score g \<and>
   brickInv (createBricks b) \<and>
   (brickInv b
      \<longrightarrow> brickInv (breakoutUpdate b) \<and> score b \<le> score (breakoutUpdate b) \<and>
          brickInv (breakoutHandleKeyDown code r1 b) \<and>
          score (breakoutHandleKeyDown code r1 b) = score b \<and>
          brickInv (breakoutHandleKeyUp code b) \<and>
          score (breakoutHandleKeyUp code b) = score b) \<and>
   (0 \<le> wave v \<longrightarrow> invadersInv (createAliens v)) \<and>
   (invadersInv v
      \<longrightarrow> invadersInv (invadersUpdate now r1 r2 v) \<and>
          score v \<le> score (invadersUpdate now r1 r2 v) \<and>
          invadersInv (invadersHandleKeyDown code v) \<and>
          score (invadersHandleKeyDown code v) = score v \<and>
          invadersInv (invadersHandleKeyUp code v) \<and>
          score (invadersHandleKeyUp code v) = score v \<and>
          invadersInv (cooldownOver v) \<and> score (cooldownOver v) = score v) \<and>
   (1 \<le> level t \<and> currentRotation t < 4 \<and> board t = emptyBoard \<longrightarrow> tetrisInv t) \<and>
   (tetrisInv t
      \<longrightarrow> (\<exists>t'. tetrisUpdate now r1 t = Inr t' \<and> tetrisInv t' \<and> score t \<le> score t') \<and>
          (\<exists>t'. tetrisHandleKeyDown code r1 t = Some (Inr t') \<and> tetrisInv t' \<and>
                score t \<le> score t') \<and>
          tetrisInv (tetrisHandleKeyUp code t) \<and>
          score (tetrisHandleKeyUp code t) = score t)"
proof -
  have snake_wall: "moveInterval s \<le> now - lastMoveTime s \<and> snake s \<noteq> [] \<and>
      \<not> inGrid (tileCount s) (stepHead s)
      \<longrightarrow> (\<exists>s'. snakeUpdate now rnd s = Inr s' \<and> isRunning s' = False \<and>
              gameOverCalls s' = gameOverCalls s @ [score s] \<and> snake s' = snake s \<and>
              score s' = score s)"
    using snakeUpdate_wall [of s now rnd] by blast
  have snake_all: "snake s \<noteq> []
      \<longrightarrow> (\<exists>s'. snakeUpdate now rnd s = Inr s' \<and> snake s' \<noteq> [] \<and> score s \<le> score s')"
    using snakeUpdate_score [of s now rnd] snakeUpdate_nonempty [of s now rnd] by blast
  have add: "0 \<le> n \<longrightarrow> score g \<le> score (addScore n g)"
    by (simp add: addScore_def)
  have breakout: "brickInv b
      \<longrightarrow> brickInv (breakoutUpdate b) \<and> score b \<le> score (breakoutUpdate b) \<and>
          brickInv (breakoutHandleKeyDown code r1 b) \<and>
          score (breakoutHandleKeyDown code r1 b) = score b \<and>
          brickInv (breakoutHandleKeyUp code b) \<and>
          score (breakoutHandleKeyUp code b) = score b"
    using breakoutUpdate_inv [of b] by (simp add: keys_inv breakoutKeys_score)
  have invaders: "invadersInv v
      \<longrightarrow> invadersInv (invadersUpdate now r1 r2 v) \<and>
          score v \<le> score (invadersUpdate now r1 r2 v) \<and>
          invadersInv (invadersHandleKeyDown code v) \<and>
          score (invadersHandleKeyDown code v) = score v \<and>
          invadersInv (invadersHandleKeyUp code v) \<and>
          score (invadersHandleKeyUp code v) = score v \<and>
          invadersInv (cooldownOver v) \<and> score (cooldownOver v) = score v"
    using invadersUpdate_inv [of v now r1 r2] by (simp add: keys_inv invadersKeys_score)
  have tetris: "tetrisInv t
      \<longrightarrow> (\<exists>t'. tetrisUpdate now r1 t = Inr t' \<and> tetrisInv t' \<and> score t \<le> score t') \<and>
          (\<exists>t'. tetrisHandleKeyDown code r1 t = Some (Inr t') \<and> tetrisInv t' \<and>
                score t \<le> score t') \<and>
          tetrisInv (tetrisHandleKeyUp code t) \<and>
          score (tetrisHandleKeyUp code t) = score t"
    using tetrisUpdate_inv [of t now r1] tetrisHandleKeyDown_inv [of t code r1]
      tetrisHandleKeyUp_inv [of t code] by blast
  have base: "score (stop g) = score g" "score (triggerGameOver g) = score g"
    by (simp_all add: stop_def triggerGameOver_def Let_def)
  show ?thesis
    using snake_wall snake_all add base breakout invaders tetris
      snakeHandleKeyDown_snake [of code s] snakeHandleKeyDown_score [of code s]
      createBricks_inv [of b] createAliens_inv [of v] tetrisInv_start [of t]
    by blast
qed

lemma witness_invariants:
  "brickInv bounceState" "invadersInv doubleOverState" "tetrisInv kickState"
proof -
  show "brickInv bounceState"
    by (simp add: brickInv_def wfBricks_def bounceState_def)
  show "invadersInv doubleOverState"
    by (auto simp: invadersInv_def doubleOverState_def createShields_def createAliens_def
        Let_def list_all_iff alienRows_def fleetStart_def)
  show "tetrisInv kickState"
    by (rule tetrisInv_start) (simp_all add: kickState_def)
qed

theorem score_never_decreases_witness:
  "moveInterval wallState \<le> 200 - lastMoveTime wallState \<and> snake wallState \<noteq> [] \<and>
   \<not> inGrid (tileCount wallState) (stepHead wallState) \<and>
   (\<exists>s'. snakeUpdate 200 (\<lambda>k. 0) wallState = Inr s' \<and> isRunning s' = False \<and>
      gameOverCalls s' = [50] \<and> snake s' = [(19, 3), (18, 3), (17, 3)] \<and> score s' = 50) \<and>
   score wallState \<le> score (addScore 10 wallState) \<and>
   brickInv bounceState \<and> score bounceState \<le> score (breakoutUpdate bounceState) \<and>
   invadersInv doubleOverState \<and>
   score doubleOverState \<le> score (invadersUpdate 200 0 0 doubleOverState) \<and>
   tetrisInv kickState \<and>
   (\<exists>t'. tetrisUpdate 200 0 kickState = Inr t' \<and> score kickState \<le> score t') \<and>
   (\<exists>t'. tetrisHandleKeyDown ''Space'' 0 kickState = Some (Inr t') \<and>
      score kickState \<le> score t')"
proof -
  note r = score_never_decreases [of wallState 200 "\<lambda>k. 0" "''Space''" 10 wallState
      bounceState 0 doubleOverState 0 kickState]
  have h: "moveInterval wallState \<le> 200 - lastMoveTime wallState \<and> snake wallState \<noteq> [] \<and>
      \<not> inGrid (tileCount wallState) (stepHead wallState)"
    by (simp add: wallState_def inGrid_def stepHead_def)
  have n: "(0::int) \<le> 10" by simp
  have sel: "gameOverCalls wallState = []" "score wallState = 50"
    "snake wallState = [(19, 3), (18, 3), (17, 3)]"
    by (simp_all add: wallState_def)
  have a: "\<exists>s'. snakeUpdate 200 (\<lambda>k. 0) wallState = Inr s' \<and> isRunning s' = False \<and>
      gameOverCalls s' = gameOverCalls wallState @ [score wallState] \<and>
      snake s' = snake wallState \<and> score s' = score wallState"
    using r h by blast
  have b: "score wallState \<le> score (addScore 10 wallState)"
    using r n by blast
  have c: "score bounceState \<le> score (breakoutUpdate bounceState)"
    using r witness_invariants(1) by blast
  have d: "score doubleOverState \<le> score (invadersUpdate 200 0 0 doubleOverState)"
    using r witness_invariants(2) by blast
  have e: "\<exists>t'. tetrisUpdate 200 0 kickState = Inr t' \<and> score kickState \<le> score t'"
    "\<exists>t'. tetrisHandleKeyDown ''Space'' 0 kickState = Some (Inr t') \<and> score kickState \<le> score t'"
    using r witness_invariants(3) by blast+
  show ?thesis
    using h a [unfolded sel] b c d e witness_invariants by (simp add: sel)
qed

end
